theory Spec2Isabelle
  imports Complex_Main "HOL-Library.Word"
begin

unbundle bit_operations_syntax

section \<open>JavaScript numbers as they occur in the server\<close>

text \<open>
  A JavaScript number is an IEEE 754 double. A finite double is modelled by the real
  number it denotes, and \<open>None\<close> stands for every value that is not a finite number: a
  missing field (\<open>undefined\<close>, which arithmetic turns into NaN), NaN itself and the two
  infinities. Every arithmetic operation of the hit test rounds its exact result to the
  nearest double, ties to the even significand, with subnormal results below \<open>2 powi (-1022)\<close>
  and overflow from \<open>2 ^ 1024\<close> on.

  \<open>binade a\<close> is the exponent \<open>e\<close> with \<open>2 powi e \<le> a < 2 powi (e + 1)\<close> for a positive
  \<open>a\<close>, computed from the number of bits of an integer.
\<close>

type_synonym jsnum = "real option"

function ilog2 :: "int \<Rightarrow> int" where
  "ilog2 n = (if n < 2 then 0 else ilog2 (n div 2) + 1)"
  by pat_completeness auto
termination
  by (relation "measure nat") auto

declare ilog2.simps [simp del]

definition binade :: "real \<Rightarrow> int" where
  "binade a = (if 1 \<le> a then ilog2 \<lfloor>a\<rfloor> else - ilog2 (\<lceil>1 / a\<rceil> - 1) - 1)"

text \<open>Rounding to the nearest integer, a tie to the even one.\<close>

definition round_even :: "real \<Rightarrow> int" where
  "round_even q =
     (let f = \<lfloor>q\<rfloor>; r = q - of_int f
      in if r < 1 / 2 then f else if 1 / 2 < r then f + 1 else if even f then f else f + 1)"

text \<open>
  The exponent of the last place of the doubles around \<open>x\<close>: 52 below the binade of
  \<open>x\<close>, and never below that of the subnormal doubles. \<open>round_double\<close> is the rounding
  of a real number to a double (also the value of a decimal literal of a program or of a
  JSON text), and \<open>fl\<close> the result of an operation whose exact result is \<open>x\<close>: an
  overflow gives an infinity, which is \<open>None\<close>.
\<close>

definition ulp_exp :: "real \<Rightarrow> int" where
  "ulp_exp x = max (binade \<bar>x\<bar>) (- 1022) - 52"

definition round_double :: "real \<Rightarrow> real" where
  "round_double x = (if x = 0 then 0 else of_int (round_even (x / 2 powi ulp_exp x)) * 2 powi ulp_exp x)"

definition fl :: "real \<Rightarrow> jsnum" where
  "fl x = (let y = round_double x in if \<bar>y\<bar> < 2 ^ 1024 then Some y else None)"

text \<open>
  The operations \<open>+\<close>, \<open>-\<close>, \<open>*\<close> and \<open>** 2\<close> on doubles. An operand that is not a
  finite number gives a result that is not one: in the hit test, where these are used, a
  value that is not a finite number never leads to a hit, whichever of NaN and the
  infinities it is. The square \<open>x ** 2\<close> is the rounded product \<open>x * x\<close>, which is what
  the exponentiation of the runtime returns for the exponent 2.
\<close>

definition fl_add :: "jsnum \<Rightarrow> jsnum \<Rightarrow> jsnum" where
  "fl_add a b = (case a of None \<Rightarrow> None | Some u \<Rightarrow> (case b of None \<Rightarrow> None | Some v \<Rightarrow> fl (u + v)))"

definition fl_sub :: "jsnum \<Rightarrow> jsnum \<Rightarrow> jsnum" where
  "fl_sub a b = (case a of None \<Rightarrow> None | Some u \<Rightarrow> (case b of None \<Rightarrow> None | Some v \<Rightarrow> fl (u - v)))"

definition fl_mul :: "jsnum \<Rightarrow> jsnum \<Rightarrow> jsnum" where
  "fl_mul a b = (case a of None \<Rightarrow> None | Some u \<Rightarrow> (case b of None \<Rightarrow> None | Some v \<Rightarrow> fl (u * v)))"

definition fl_sq :: "jsnum \<Rightarrow> jsnum" where
  "fl_sq a = (case a of None \<Rightarrow> None | Some u \<Rightarrow> fl (u * u))"

text \<open>
  The comparisons, false when an operand is NaN, and the subtraction that takes 25 off a
  health, which is written without rounding: healths are integers of at most a few
  digits, and their differences are doubles.
\<close>

definition js_sub :: "jsnum \<Rightarrow> jsnum \<Rightarrow> jsnum" where
  "js_sub a b = (case a of None \<Rightarrow> None | Some u \<Rightarrow> (case b of None \<Rightarrow> None | Some v \<Rightarrow> Some (u - v)))"

definition js_lt :: "jsnum \<Rightarrow> jsnum \<Rightarrow> bool" where
  "js_lt a b = (case a of None \<Rightarrow> False | Some u \<Rightarrow> (case b of None \<Rightarrow> False | Some v \<Rightarrow> u < v))"

definition js_gt :: "jsnum \<Rightarrow> jsnum \<Rightarrow> bool" where
  "js_gt a b = js_lt b a"

definition js_le :: "jsnum \<Rightarrow> jsnum \<Rightarrow> bool" where
  "js_le a b = (case a of None \<Rightarrow> False | Some u \<Rightarrow> (case b of None \<Rightarrow> False | Some v \<Rightarrow> u \<le> v))"

section \<open>Data model of the server\<close>

text \<open>
  The state object a client reports: position, orientation and health. A field the client
  left out is \<open>None\<close>. The object \<open>{}\<close> stored at registration is \<open>empty_state\<close>.
\<close>

record pstate =
  pos_x :: jsnum
  pos_y :: jsnum
  pos_z :: jsnum
  yaw :: jsnum
  pitch :: jsnum
  health :: jsnum

definition empty_state :: pstate where
  "empty_state = \<lparr>pos_x = None, pos_y = None, pos_z = None, yaw = None, pitch = None, health = None\<rparr>"

record vec3 =
  vx :: jsnum
  vy :: jsnum
  vz :: jsnum

text \<open>
  One entry of the \<open>clients\<close> map. The socket is not a field of the model: a write to
  the socket of connection \<open>i\<close> is logged as a pair \<open>(i, message)\<close>. A name or a state
  that is \<open>undefined\<close> (the init message did not carry it) is \<open>None\<close>.
\<close>

record client =
  name :: "string option"
  state :: "pstate option"
  kills :: nat
  deaths :: nat
  buffer :: "8 word list"

text \<open>Messages from the server; a catch-up \<open>playerJoined\<close> carries kills and deaths.\<close>

datatype smsg =
    Welcome nat
  | PlayerJoined nat "string option" "pstate option" "(nat \<times> nat) option"
  | PlayerLeft nat
  | UpdateMsg nat "pstate option"
  | PlayerKilled nat nat

text \<open>
  Messages from a client, after \<open>JSON.parse\<close>: the three recognised types, and
  \<open>Other\<close> for any other value of \<open>type\<close>.
\<close>

datatype cmsg =
    Init "string option" "pstate option"
  | Update "pstate option"
  | Shoot "vec3 option" "vec3 option"
  | Other

text \<open>
  The globals of the server: \<open>clients\<close> (a Map, iterated in insertion order, here an
  association list), \<open>nextId\<close>, and the log of all socket writes, oldest first.
\<close>

record server =
  clients :: "(nat \<times> client) list"
  nextId :: nat
  sent :: "(nat \<times> smsg) list"

definition init_server :: server where
  "init_server = \<lparr>clients = [], nextId = 1, sent = []\<rparr>"

definition truthy_name :: "string option \<Rightarrow> bool" where
  "truthy_name n = (case n of None \<Rightarrow> False | Some s \<Rightarrow> s \<noteq> [])"

text \<open>Mutation of the client object stored under a key.\<close>

definition upd_client :: "nat \<Rightarrow> (client \<Rightarrow> client) \<Rightarrow> (nat \<times> client) list \<Rightarrow> (nat \<times> client) list" where
  "upd_client k f cs = map (\<lambda>(i, c). if i = k then (i, f c) else (i, c)) cs"

section \<open>Sending\<close>

text \<open>
  \<open>sendWS\<close> writes one frame with the message to a socket; in the state of the model
  the write is appended to the log. The bytes of the frame are \<open>sendWS_frame\<close> below.
  \<open>broadcast\<close> writes to every registered connection in registry order,
  \<open>broadcastExcept\<close> to every one but the given id.
\<close>

definition sendWS :: "nat \<Rightarrow> smsg \<Rightarrow> server \<Rightarrow> server" where
  "sendWS sock m st = st\<lparr>sent := sent st @ [(sock, m)]\<rparr>"

definition broadcast :: "smsg \<Rightarrow> server \<Rightarrow> server" where
  "broadcast m st = st\<lparr>sent := sent st @ map (\<lambda>(i, c). (i, m)) (clients st)\<rparr>"

definition broadcastExcept :: "nat \<Rightarrow> smsg \<Rightarrow> server \<Rightarrow> server" where
  "broadcastExcept exceptId m st =
     st\<lparr>sent := sent st @ map (\<lambda>(i, c). (i, m)) (filter (\<lambda>(i, c). i \<noteq> exceptId) (clients st))\<rparr>"

section \<open>Connection registry\<close>

text \<open>
  The upgrade handler: a request without the key header is answered with 400 and nothing is
  registered; otherwise the connection gets the next id, a fresh entry and a welcome.
  \<open>Map.set\<close> replaces the value in place when the key exists and appends otherwise.
\<close>

definition new_client :: client where
  "new_client = \<lparr>name = Some [], state = Some empty_state, kills = 0, deaths = 0, buffer = []\<rparr>"

definition map_set :: "nat \<Rightarrow> client \<Rightarrow> (nat \<times> client) list \<Rightarrow> (nat \<times> client) list" where
  "map_set k v cs = (if k \<in> fst ` set cs then upd_client k (\<lambda>_. v) cs else cs @ [(k, v)])"

definition upgrade :: "bool \<Rightarrow> server \<Rightarrow> server" where
  "upgrade has_key st =
     (if \<not> has_key then st
      else let playerId = nextId st;
               st1 = st\<lparr>nextId := nextId st + 1\<rparr>;
               st2 = st1\<lparr>clients := map_set playerId new_client (clients st1)\<rparr>
           in sendWS playerId (Welcome playerId) st2)"

definition removeClient :: "nat \<Rightarrow> server \<Rightarrow> server" where
  "removeClient k st =
     (case map_of (clients st) k of
        None \<Rightarrow> st
      | Some c \<Rightarrow> broadcast (PlayerLeft k) (st\<lparr>clients := filter (\<lambda>(i, c). i \<noteq> k) (clients st)\<rparr>))"

section \<open>Message handling\<close>

datatype js_error = TypeError

text \<open>
  The test of the hit loop for one other player whose state is truthy: the projection of
  the player's position on the ray, the range check, the closest point on the ray and the
  squared distance to it, compared with the product \<open>0.6 * 0.6\<close>, all in double
  arithmetic and in the order the source writes the operations.
\<close>

definition maxDist :: jsnum where
  "maxDist = Some 50"

definition ray_proj :: "vec3 \<Rightarrow> vec3 \<Rightarrow> pstate \<Rightarrow> jsnum" where
  "ray_proj origin direction s =
     (let dx = fl_sub (pos_x s) (vx origin);
          dy = fl_sub (pos_y s) (vy origin);
          dz = fl_sub (pos_z s) (vz origin)
      in fl_add (fl_add (fl_mul dx (vx direction)) (fl_mul dy (vy direction))) (fl_mul dz (vz direction)))"

definition ray_distSq :: "vec3 \<Rightarrow> vec3 \<Rightarrow> pstate \<Rightarrow> jsnum" where
  "ray_distSq origin direction s =
     (let proj = ray_proj origin direction s;
          closestX = fl_add (vx origin) (fl_mul proj (vx direction));
          closestY = fl_add (vy origin) (fl_mul proj (vy direction));
          closestZ = fl_add (vz origin) (fl_mul proj (vz direction))
      in fl_add (fl_add (fl_sq (fl_sub (pos_x s) closestX)) (fl_sq (fl_sub (pos_y s) closestY)))
                (fl_sq (fl_sub (pos_z s) closestZ)))"

definition ray_hits :: "vec3 \<Rightarrow> vec3 \<Rightarrow> pstate \<Rightarrow> bool" where
  "ray_hits origin direction s =
     (let proj = ray_proj origin direction s
      in if js_lt proj (Some 0) \<or> js_gt proj maxDist then False
         else js_lt (ray_distSq origin direction s) (fl_mul (fl (6 / 10)) (fl (6 / 10))))"

text \<open>
  The loop over \<open>clients\<close> that looks for the victim. The shooter and the entries whose
  state is falsy are skipped; the first entry that passes the test ends the loop. Reading
  a coordinate of an origin or direction that the message did not carry throws, which
  the handler catches.
\<close>

fun find_hit :: "nat \<Rightarrow> vec3 option \<Rightarrow> vec3 option \<Rightarrow> (nat \<times> client) list \<Rightarrow> js_error + nat option" where
  "find_hit playerId origin direction [] = Inr None"
| "find_hit playerId origin direction ((i, other) # rest) =
     (if i = playerId then find_hit playerId origin direction rest
      else case state other of
        None \<Rightarrow> find_hit playerId origin direction rest
      | Some s \<Rightarrow>
          (case origin of
             None \<Rightarrow> Inl TypeError
           | Some orig \<Rightarrow>
               (case direction of
                  None \<Rightarrow> Inl TypeError
                | Some dir \<Rightarrow>
                    if ray_hits orig dir s then Inr (Some i)
                    else find_hit playerId origin direction rest)))"

text \<open>
  The respawn position, from the two values \<open>Math.random\<close> returns (each in [0, 1)),
  which the model takes as a parameter.
\<close>

definition respawn :: "real \<times> real \<Rightarrow> pstate \<Rightarrow> pstate" where
  "respawn rnd s =
     s\<lparr>health := Some 100,
       pos_x := Some ((fst rnd - 5 / 10) * 20),
       pos_z := Some ((snd rnd - 5 / 10) * 20),
       pos_y := Some (16 / 10)\<rparr>"

definition handle_init :: "nat \<Rightarrow> string option \<Rightarrow> pstate option \<Rightarrow> server \<Rightarrow> server" where
  "handle_init playerId nm s st =
     (let st1 = st\<lparr>clients := upd_client playerId (\<lambda>c. c\<lparr>name := nm, state := s\<rparr>) (clients st)\<rparr>;
          st2 = broadcast (PlayerJoined playerId nm s None) st1
      in fold (\<lambda>(i, other) acc.
                 if i = playerId \<or> \<not> truthy_name (name other) then acc
                 else sendWS playerId
                        (PlayerJoined i (name other) (state other) (Some (kills other, deaths other))) acc)
              (clients st2) st2)"

definition handle_update :: "nat \<Rightarrow> pstate option \<Rightarrow> server \<Rightarrow> server" where
  "handle_update playerId s st =
     (let st1 = st\<lparr>clients := upd_client playerId (\<lambda>c. c\<lparr>state := s\<rparr>) (clients st)\<rparr>
      in broadcastExcept playerId (UpdateMsg playerId s) st1)"

text \<open>
  The shoot handler after the loop. \<open>if (hitId)\<close> is false for no hit and for the id 0.
  The victim is the entry the loop stopped at, so its lookup and its state are there;
  the two \<open>None\<close> branches stand for the TypeError the handler would catch.
\<close>

definition handle_shoot :: "real \<times> real \<Rightarrow> nat \<Rightarrow> vec3 option \<Rightarrow> vec3 option \<Rightarrow> server \<Rightarrow> server" where
  "handle_shoot rnd playerId origin direction st =
     (case find_hit playerId origin direction (clients st) of
        Inl e \<Rightarrow> st
      | Inr None \<Rightarrow> st
      | Inr (Some hitId) \<Rightarrow>
          if hitId = 0 then st
          else
            (case map_of (clients st) hitId of
               None \<Rightarrow> st
             | Some victim \<Rightarrow>
                 (case state victim of
                    None \<Rightarrow> st
                  | Some vs \<Rightarrow>
                      (let h = js_sub (health vs) (Some 25)
                       in if js_le h (Some 0) then
                            (let vs1 = respawn rnd vs;
                                 cs1 = upd_client playerId (\<lambda>c. c\<lparr>kills := kills c + 1\<rparr>) (clients st);
                                 cs2 = upd_client hitId (\<lambda>c. c\<lparr>deaths := deaths c + 1, state := Some vs1\<rparr>) cs1;
                                 st1 = broadcast (PlayerKilled playerId hitId) (st\<lparr>clients := cs2\<rparr>)
                             in broadcast (UpdateMsg hitId (Some vs1)) st1)
                          else st\<lparr>clients := upd_client hitId (\<lambda>c. c\<lparr>state := Some (vs\<lparr>health := h\<rparr>)\<rparr>) (clients st)\<rparr>))))"

text \<open>
  \<open>handleMessage\<close>: only text frames (opcode 1) are handled; a payload that
  \<open>JSON.parse\<close> rejects (\<open>None\<close>) and an unknown type are ignored.
\<close>

definition handleMessage :: "real \<times> real \<Rightarrow> nat \<Rightarrow> nat \<Rightarrow> cmsg option \<Rightarrow> server \<Rightarrow> server" where
  "handleMessage rnd playerId opcode message st =
     (if opcode \<noteq> 1 then st
      else case message of
        None \<Rightarrow> st
      | Some (Init nm s) \<Rightarrow> handle_init playerId nm s st
      | Some (Update s) \<Rightarrow> handle_update playerId s st
      | Some (Shoot origin direction) \<Rightarrow> handle_shoot rnd playerId origin direction st
      | Some Other \<Rightarrow> st)"

section \<open>Frame codec\<close>

text \<open>
  Buffers are lists of bytes. The length read from a 64-bit length field is the exact
  natural number \<open>high * 2 ^ 32 + low\<close>.
\<close>

definition readUInt16BE :: "8 word list \<Rightarrow> nat \<Rightarrow> nat" where
  "readUInt16BE buf i = unat (buf ! i) * 256 + unat (buf ! (i + 1))"

definition readUInt32BE :: "8 word list \<Rightarrow> nat \<Rightarrow> nat" where
  "readUInt32BE buf i =
     unat (buf ! i) * 2 ^ 24 + unat (buf ! (i + 1)) * 2 ^ 16 + unat (buf ! (i + 2)) * 2 ^ 8 + unat (buf ! (i + 3))"

definition writeUInt16BE :: "nat \<Rightarrow> 8 word list" where
  "writeUInt16BE n = [of_nat (n div 256), of_nat n]"

definition writeBigUInt64BE :: "nat \<Rightarrow> 8 word list" where
  "writeBigUInt64BE n =
     [of_nat (n div 2 ^ 56), of_nat (n div 2 ^ 48), of_nat (n div 2 ^ 40), of_nat (n div 2 ^ 32),
      of_nat (n div 2 ^ 24), of_nat (n div 2 ^ 16), of_nat (n div 2 ^ 8), of_nat n]"

text \<open>
  The frame \<open>sendWS\<close> writes for a message whose UTF-8 bytes are \<open>message\<close>: the header
  in one of three sizes, then the bytes.
\<close>

definition frame_header :: "nat \<Rightarrow> 8 word list" where
  "frame_header payloadLength =
     (if payloadLength < 126 then [0x81, of_nat payloadLength]
      else if payloadLength < 65536 then [0x81, 126] @ writeUInt16BE payloadLength
      else [0x81, 127] @ writeBigUInt64BE payloadLength)"

definition sendWS_frame :: "8 word list \<Rightarrow> 8 word list" where
  "sendWS_frame message = frame_header (length message) @ message"

text \<open>Removal of the mask: byte \<open>i\<close> of the payload is XOR-ed with byte \<open>i mod 4\<close> of the key.\<close>

definition unmask :: "8 word list \<Rightarrow> 8 word list \<Rightarrow> 8 word list" where
  "unmask maskKey payload = map (\<lambda>i. (payload ! i) XOR (maskKey ! (i mod 4))) [0..<length payload]"

text \<open>
  One pass through the body of the loop of \<open>parseBuffer\<close>: \<open>None\<close> where the loop
  breaks, otherwise the opcode, the payload (unmasked) and the number of bytes the frame
  takes, \<open>offset + length\<close>.
\<close>

definition frame_length :: "8 word list \<Rightarrow> (nat \<times> nat) option" where
  "frame_length buf =
     (let byte2 = buf ! 1;
          len = unat (byte2 AND 0x7f)
      in if len = 126 then (if length buf < 4 then None else Some (readUInt16BE buf 2, 4))
         else if len = 127 then
           (if length buf < 10 then None
            else Some (readUInt32BE buf 2 * 2 ^ 32 + readUInt32BE buf 6, 10))
         else Some (len, 2))"

definition next_frame :: "8 word list \<Rightarrow> (nat \<times> 8 word list \<times> nat) option" where
  "next_frame buf =
     (if length buf < 2 then None
      else let byte1 = buf ! 0;
               byte2 = buf ! 1;
               opcode = unat (byte1 AND 0x0f);
               masked = (byte2 AND 0x80 \<noteq> 0)
           in case frame_length buf of
                None \<Rightarrow> None
              | Some (len, offset) \<Rightarrow>
                  if masked then
                    (if length buf < offset + 4 then None
                     else let maskKey = take 4 (drop offset buf);
                              offset1 = offset + 4
                          in if length buf < offset1 + len then None
                             else Some (opcode, unmask maskKey (take len (drop offset1 buf)), offset1 + len))
                  else if length buf < offset + len then None
                  else Some (opcode, take len (drop offset buf), offset + len))"

text \<open>
  The loop of \<open>parseBuffer\<close>, with the handler of a frame as a parameter: it returns
  the state after all extracted frames were handled and the bytes that stay in the buffer.
\<close>

function parseBuffer_loop :: "('s \<Rightarrow> nat \<Rightarrow> 8 word list \<Rightarrow> 's) \<Rightarrow> 's \<Rightarrow> 8 word list \<Rightarrow> 's \<times> 8 word list" where
  "parseBuffer_loop h s buf =
     (case next_frame buf of
        None \<Rightarrow> (s, buf)
      | Some (opcode, payload, n) \<Rightarrow> parseBuffer_loop h (h s opcode payload) (drop n buf))"
  by pat_completeness auto
termination
proof (relation "measure (\<lambda>(h, s, buf). length buf)")
  show "wf (measure (\<lambda>(h, s, buf). length buf))" by simp
next
  fix h :: "'s \<Rightarrow> nat \<Rightarrow> 8 word list \<Rightarrow> 's" and s buf x2 opcode y payload n
  assume "next_frame buf = Some x2" "(opcode, y) = x2" "(payload, n) = y"
  then have "next_frame buf = Some (opcode, payload, n)" by simp
  then have "2 \<le> n \<and> n \<le> length buf"
    by (auto simp: next_frame_def frame_length_def Let_def split: if_splits option.splits prod.splits)
  then show "((h, h s opcode payload, drop n buf), (h, s, buf)) \<in> measure (\<lambda>(h, s, buf). length buf)"
    by auto
qed

declare parseBuffer_loop.simps [simp del]



text \<open>
  The masking a client applies to a payload before it sends it: byte \<open>i\<close> of the payload
  is XOR-ed with byte \<open>i mod 4\<close> of the key, one byte after the other. The frame a client
  sends has the header of \<open>sendWS\<close> with the mask bit of the second byte set, then the
  four bytes of the key, then the masked payload.
\<close>

fun mask_bytes :: "8 word list \<Rightarrow> nat \<Rightarrow> 8 word list \<Rightarrow> 8 word list" where
  "mask_bytes maskKey i [] = []"
| "mask_bytes maskKey i (b # bs) = (b XOR (maskKey ! (i mod 4))) # mask_bytes maskKey (Suc i) bs"

definition mask_frame :: "8 word list \<Rightarrow> 8 word list \<Rightarrow> 8 word list" where
  "mask_frame maskKey message =
     (let header = frame_header (length message)
      in [header ! 0, (header ! 1) OR 0x80] @ drop 2 header @ maskKey @ mask_bytes maskKey 0 message)"



section \<open>Scenarios\<close>

text \<open>
  The state a client of this repository sends with \<open>init\<close>: the camera at (0, 1.6, 0),
  no rotation, full health.
\<close>

definition localState0 :: pstate where
  "localState0 = \<lparr>pos_x = Some 0, pos_y = Some (16 / 10), pos_z = Some 0, yaw = Some 0, pitch = Some 0, health = Some 100\<rparr>"

text \<open>Two connections after their handshakes, neither has sent \<open>init\<close>.\<close>

definition two_connected :: server where
  "two_connected = upgrade True (upgrade True init_server)"

text \<open>Three connections of which the first two have joined as alice and bob.\<close>

definition two_joined :: server where
  "two_joined =
     handleMessage (0, 0) 2 1 (Some (Init (Some ''bob'') (Some localState0)))
       (handleMessage (0, 0) 1 1 (Some (Init (Some ''alice'') (Some localState0)))
          (upgrade True (upgrade True (upgrade True init_server))))"

text \<open>The ray of a shot from the origin along the z axis.\<close>

definition zero3 :: vec3 where
  "zero3 = \<lparr>vx = Some 0, vy = Some 0, vz = Some 0\<rparr>"

definition unitZ :: vec3 where
  "unitZ = \<lparr>vx = Some 0, vy = Some 0, vz = Some 1\<rparr>"

definition state_at :: "real \<Rightarrow> real \<Rightarrow> real \<Rightarrow> real \<Rightarrow> pstate" where
  "state_at a b c h = localState0\<lparr>pos_x := Some a, pos_y := Some b, pos_z := Some c, health := Some h\<rparr>"

text \<open>A client that has joined under the given name with the given state.\<close>

definition player :: "string \<Rightarrow> pstate \<Rightarrow> client" where
  "player nm s = \<lparr>name = Some nm, state = Some s, kills = 0, deaths = 0, buffer = []\<rparr>"

text \<open>Two players: alice (id 1) at the origin and bob (id 2) with the given state.\<close>

definition duel :: "pstate \<Rightarrow> server" where
  "duel tgt =
     handleMessage (0, 0) 2 1 (Some (Init (Some ''bob'') (Some tgt)))
       (handleMessage (0, 0) 1 1 (Some (Init (Some ''alice'') (Some (state_at 0 0 0 100)))) two_connected)"

text \<open>
  Three players on the z axis: alice (id 1) at the origin, bob (id 2) at distance 20 and
  carol (id 3) at distance 10, so the nearer target is the later one in the registry.
\<close>

definition three_in_line :: server where
  "three_in_line =
     handleMessage (0, 0) 3 1 (Some (Init (Some ''carol'') (Some (state_at 0 0 10 100))))
       (handleMessage (0, 0) 2 1 (Some (Init (Some ''bob'') (Some (state_at 0 0 20 100))))
          (handleMessage (0, 0) 1 1 (Some (Init (Some ''alice'') (Some (state_at 0 0 0 100))))
             (upgrade True (upgrade True (upgrade True init_server)))))"

section \<open>The health range as a predicate on states\<close>

text \<open>
  A stored health that is a number is an integer from 0 to 100. The predicate holds of
  a server state when it holds of every registered client that has a state.
\<close>

definition health_ok :: "jsnum \<Rightarrow> bool" where
  "health_ok h = (case h of None \<Rightarrow> True | Some v \<Rightarrow> v = of_int \<lfloor>v\<rfloor> \<and> 0 \<le> v \<and> v \<le> 100)"

definition state_ok :: "pstate option \<Rightarrow> bool" where
  "state_ok s = (case s of None \<Rightarrow> True | Some t \<Rightarrow> health_ok (health t))"

definition health_inv :: "server \<Rightarrow> bool" where
  "health_inv st = list_all (\<lambda>(i, c). state_ok (state c)) (clients st)"

text \<open>The state a client submits with \<open>init\<close> or \<open>update\<close> has a health in the range.\<close>

definition msg_ok :: "cmsg option \<Rightarrow> bool" where
  "msg_ok m = (case m of Some (Init nm s) \<Rightarrow> state_ok s | Some (Update s) \<Rightarrow> state_ok s | _ \<Rightarrow> True)"

section \<open>Runs of the server\<close>

text \<open>
  The callbacks the runtime invokes on the server: an upgrade request (with or without
  the key header), a call of \<open>handleMessage\<close> for a decoded frame of a connection, and
  the end or error of a connection. A run applies a list of them in order.
\<close>

datatype event =
    Connect bool
  | Message "real \<times> real" nat nat "cmsg option"
  | Close nat

fun step :: "event \<Rightarrow> server \<Rightarrow> server" where
  "step (Connect has_key) st = upgrade has_key st"
| "step (Message rnd playerId opcode message) st = handleMessage rnd playerId opcode message st"
| "step (Close playerId) st = removeClient playerId st"

definition run :: "event list \<Rightarrow> server \<Rightarrow> server" where
  "run evs st = fold step evs st"

text \<open>An event that gives connection \<open>a\<close> a non-empty name: an \<open>init\<close> of \<open>a\<close> with one.\<close>

definition renames :: "nat \<Rightarrow> event \<Rightarrow> bool" where
  "renames a ev =
     (case ev of
        Message rnd p opcode (Some (Init nm s)) \<Rightarrow> p = a \<and> opcode = 1 \<and> truthy_name nm
      | _ \<Rightarrow> False)"

text \<open>An event whose message, if it carries a state, carries a health in the range.\<close>

definition event_ok :: "event \<Rightarrow> bool" where
  "event_ok ev = (case ev of Message rnd p opcode m \<Rightarrow> msg_ok m | _ \<Rightarrow> True)"

text \<open>No entry of the registry under the id \<open>a\<close> has a truthy name.\<close>

definition nameless :: "nat \<Rightarrow> server \<Rightarrow> bool" where
  "nameless a st = list_all (\<lambda>(i, c). i \<noteq> a \<or> \<not> truthy_name (name c)) (clients st)"

text \<open>
  The registry of a state the server can be in: the ids are distinct, none is 0 and all
  are below \<open>nextId\<close>.
\<close>

definition registry_ok :: "server \<Rightarrow> bool" where
  "registry_ok st =
     (0 < nextId st \<and> distinct (map fst (clients st)) \<and>
      list_all (\<lambda>i. 0 < i \<and> i < nextId st) (map fst (clients st)))"

definition three_connected :: server where
  "three_connected = upgrade True (upgrade True (upgrade True init_server))"

section \<open>Properties of the rounding\<close>

lemma ilog2_nonneg: "0 \<le> ilog2 n"
  by (induction n rule: ilog2.induct) (subst ilog2.simps, auto)

lemma ilog2_bounds: "0 < n \<Longrightarrow> 2 ^ nat (ilog2 n) \<le> n \<and> n < 2 ^ nat (ilog2 n + 1)"
proof (induction n rule: ilog2.induct)
  case (1 n)
  show ?case
  proof (cases "n < 2")
    case True
    with "1.prems" have "n = 1" by simp
    then show ?thesis by (simp add: ilog2.simps)
  next
    case False
    then have "0 < n div 2" by simp
    from "1.IH" [OF False this] have "2 ^ nat (ilog2 (n div 2)) \<le> n div 2" "n div 2 < 2 ^ nat (ilog2 (n div 2) + 1)"
      by simp_all
    with False ilog2_nonneg [of "n div 2"] show ?thesis
      by (subst (1 2) ilog2.simps) (auto simp: nat_add_distrib)
  qed
qed

lemma binade_bounds:
  assumes "0 < a"
  shows "2 powi binade a \<le> a \<and> a < 2 powi (binade a + 1)"
proof (cases "1 \<le> a")
  case True
  define n where "n = \<lfloor>a\<rfloor>"
  from True have n: "0 < n" by (simp add: n_def)
  from ilog2_bounds [OF n] have b: "2 ^ nat (ilog2 n) \<le> n" "n < 2 ^ nat (ilog2 n + 1)" by simp_all
  have k: "0 \<le> ilog2 n" by (rule ilog2_nonneg)
  have "(2::real) powi ilog2 n = 2 ^ nat (ilog2 n)" using k by (simp add: power_int_def)
  also have "\<dots> = of_int (2 ^ nat (ilog2 n))" by simp
  also have "\<dots> \<le> of_int n" using b(1) by (simp only: of_int_le_iff)
  also have "\<dots> \<le> a" by (simp add: n_def)
  finally have lo: "2 powi ilog2 n \<le> a" .
  have "a < of_int (n + 1)" by (simp add: n_def)
  also have "\<dots> \<le> of_int (2 ^ nat (ilog2 n + 1))" using b(2) by (simp only: of_int_le_iff)
  also have "\<dots> = (2::real) powi (ilog2 n + 1)" using k by (simp add: power_int_def)
  finally have hi: "a < 2 powi (ilog2 n + 1)" .
  from True lo hi show ?thesis by (simp add: binade_def n_def)
next
  case False
  define m where "m = \<lceil>1 / a\<rceil>"
  define j where "j = ilog2 (m - 1)"
  from False assms have y: "1 < 1 / a" by simp
  then have m: "0 < m - 1" unfolding m_def by linarith
  from ilog2_bounds [OF m] have b: "2 ^ nat j \<le> m - 1" "m - 1 < 2 ^ nat (j + 1)" by (simp_all add: j_def)
  have k: "0 \<le> j" unfolding j_def by (rule ilog2_nonneg)
  have "1 / a \<le> of_int m" by (simp add: m_def)
  also have "\<dots> \<le> of_int (2 ^ nat (j + 1))" using b(2) by (simp only: of_int_le_iff)
  also have "\<dots> = (2::real) powi (j + 1)" using k by (simp add: power_int_def)
  finally have "1 / a \<le> 2 powi (j + 1)" .
  then have "1 / 2 powi (j + 1) \<le> a" using assms
    by (simp add: field_simps)
  then have lo: "2 powi (- j - 1) \<le> a"
    by (simp add: power_int_minus_divide [symmetric])
  have "(2::real) powi j = of_int (2 ^ nat j)" using k by (simp add: power_int_def)
  also have "\<dots> \<le> of_int (m - 1)" using b(1) by (simp only: of_int_le_iff)
  also have "\<dots> < 1 / a" unfolding m_def by linarith
  finally have "2 powi j < 1 / a" .
  then have "a < 1 / 2 powi j" using assms by (simp add: field_simps)
  then have hi: "a < 2 powi (- j)" by (simp add: power_int_minus_divide)
  from False lo hi show ?thesis by (simp add: binade_def m_def j_def)
qed

lemma binade_unique:
  assumes "0 < a" and "2 powi e \<le> a" and "a < 2 powi (e + 1)"
  shows "binade a = e"
proof -
  from binade_bounds [OF assms(1)] have b: "2 powi binade a \<le> a" "a < 2 powi (binade a + 1)" by simp_all
  have "(2::real) powi e < 2 powi (binade a + 1)" using assms(2) b(2) by simp
  then have 1: "e < binade a + 1"
    using power_int_increasing [of "binade a + 1" e "2::real"] by (cases "e < binade a + 1") simp_all
  have "(2::real) powi binade a < 2 powi (e + 1)" using assms(3) b(1) by simp
  then have 2: "binade a < e + 1"
    using power_int_increasing [of "e + 1" "binade a" "2::real"] by (cases "binade a < e + 1") simp_all
  from 1 2 show ?thesis by simp
qed

text \<open>
  The rounding of a number from its binade: with \<open>e\<close> the binade of a number that is not
  below the normal range, the result is the multiple of \<open>2 powi (e - 52)\<close> nearest to it.
\<close>

lemma round_double_eval:
  assumes "2 powi e \<le> \<bar>x\<bar>" and "\<bar>x\<bar> < 2 powi (e + 1)" and "- 1022 \<le> e"
    and "round_even (x / 2 powi (e - 52)) = m"
  shows "round_double x = of_int m * 2 powi (e - 52)"
proof -
  have "(0::real) < 2 powi e" by simp
  with assms(1) have x: "0 < \<bar>x\<bar>" by linarith
  from binade_unique [OF x assms(1) assms(2)] assms(3) have "ulp_exp x = e - 52"
    by (simp add: ulp_exp_def)
  with x assms(4) show ?thesis by (simp add: round_double_def)
qed

lemma fl_eval:
  assumes "2 powi e \<le> \<bar>x\<bar>" and "\<bar>x\<bar> < 2 powi (e + 1)" and "- 1022 \<le> e"
    and "round_even (x / 2 powi (e - 52)) = m" and "y = of_int m * 2 powi (e - 52)" and "\<bar>y\<bar> < 2 ^ 1024"
  shows "fl x = Some y"
  using round_double_eval [OF assms(1-4)] assms(5,6) by (simp add: fl_def)

lemma fl_0: "fl 0 = Some 0"
  by (simp add: fl_def round_double_def)

lemma fl_10: "fl 10 = Some 10"
  by (rule fl_eval [where e = 3 and m = "5629499534213120"]) (simp_all add: round_even_def)

lemma fl_20: "fl 20 = Some 20"
  by (rule fl_eval [where e = 4 and m = "5629499534213120"]) (simp_all add: round_even_def)





lemma fl_06: "fl (6 / 10) = Some (5404319552844595 / 9007199254740992)"
  by (rule fl_eval [where e = "- 1" and m = "5404319552844595"]) (simp_all add: round_even_def)

text \<open>The product \<open>0.6 * 0.6\<close> of the source is the double of 0.36.\<close>

lemma fl_d06_sq:
  "fl (5404319552844595 / 9007199254740992 * (5404319552844595 / 9007199254740992))
     = Some (3242591731706757 / 9007199254740992)"
  by (rule fl_eval [where e = "- 2" and m = "6485183463413514"]) (simp_all add: round_even_def)

lemma radius_sq: "fl_mul (fl (6 / 10)) (fl (6 / 10)) = Some (3242591731706757 / 9007199254740992)"
  unfolding fl_mul_def fl_06 by (simp only: option.case fl_d06_sq)










section \<open>Properties of the registry and the dispatcher\<close>

lemmas eval_defs = removeClient_def upgrade_def init_server_def map_set_def sendWS_def broadcast_def
  broadcastExcept_def Let_def new_client_def handleMessage_def handle_init_def handle_update_def
  upd_client_def truthy_name_def localState0_def empty_state_def two_connected_def two_joined_def
  state_at_def duel_def three_in_line_def

lemma map_ids_upd_client:
  "map (\<lambda>(i, c). (i, m)) (upd_client k f cs) = map (\<lambda>(i, c). (i, m)) cs"
  by (induction cs) (auto simp: upd_client_def)

lemma map_fst_upd_client: "map fst (upd_client k f cs) = map fst cs"
  by (induction cs) (auto simp: upd_client_def)

lemma filter_others_upd_client:
  "filter (\<lambda>(i, c). i \<noteq> k \<and> P i c) (upd_client k f cs) = filter (\<lambda>(i, c). i \<noteq> k \<and> P i c) cs"
  by (induction cs) (auto simp: upd_client_def split: if_splits)

lemma catchup_fold:
  "fold (\<lambda>(i, other) acc.
           if i = p \<or> \<not> truthy_name (name other) then acc
           else sendWS p (PlayerJoined i (name other) (state other) (Some (kills other, deaths other))) acc) cs st
   = st\<lparr>sent := sent st @ map (\<lambda>(i, c). (p, PlayerJoined i (name c) (state c) (Some (kills c, deaths c))))
                          (filter (\<lambda>(i, c). i \<noteq> p \<and> truthy_name (name c)) cs)\<rparr>"
proof (induction cs arbitrary: st)
  case Nil
  show ?case by simp
next
  case (Cons a cs)
  obtain i c where a: "a = (i, c)" by (cases a)
  show ?case unfolding a by (simp add: Cons.IH sendWS_def)
qed

lemma handle_init_eq:
  "handle_init p nm s st =
     st\<lparr>clients := upd_client p (\<lambda>c. c\<lparr>name := nm, state := s\<rparr>) (clients st),
        sent := sent st @ map (\<lambda>(i, c). (i, PlayerJoined p nm s None)) (clients st)
                @ map (\<lambda>(i, c). (p, PlayerJoined i (name c) (state c) (Some (kills c, deaths c))))
                      (filter (\<lambda>(i, c). i \<noteq> p \<and> truthy_name (name c)) (clients st))\<rparr>"
  by (simp add: handle_init_def Let_def catchup_fold broadcast_def map_ids_upd_client
      filter_others_upd_client [where P = "\<lambda>i c. truthy_name (name c)"])

text \<open>
  C1, as the claim states it, fails: the join is written to the sender's own socket too.
  Connection 2 sends \<open>init\<close> while connections 1 and 2 are registered, and the log of
  writes holds a \<open>playerJoined\<close> for 2 on socket 2.
\<close>

theorem init_sender_receives_broadcast:
  "(2, PlayerJoined 2 (Some ''bob'') (Some localState0) None)
     \<in> set (sent (handleMessage (0, 0) 2 1 (Some (Init (Some ''bob'') (Some localState0))) two_connected))"
  by (simp add: eval_defs)

text \<open>
  C1, amended: an \<open>init\<close> from connection \<open>p\<close> writes a \<open>playerJoined\<close> without counts
  to every registered connection in registry order, \<open>p\<close> included, and then writes to \<open>p\<close>
  one \<open>playerJoined\<close> with kills and deaths for every other entry whose name is
  non-empty, in registry order. A third client that joins after alice and bob gets its
  own join and exactly two catch-up messages.
\<close>

theorem init_broadcast_and_catchup:
  "sent (handleMessage rnd p 1 (Some (Init nm s)) st) =
     sent st @ map (\<lambda>(i, c). (i, PlayerJoined p nm s None)) (clients st)
             @ map (\<lambda>(i, c). (p, PlayerJoined i (name c) (state c) (Some (kills c, deaths c))))
                   (filter (\<lambda>(i, c). i \<noteq> p \<and> truthy_name (name c)) (clients st))
   \<and> sent (handleMessage rnd 3 1 (Some (Init (Some ''carol'') (Some localState0))) two_joined) =
     sent two_joined @
       [(1, PlayerJoined 3 (Some ''carol'') (Some localState0) None),
        (2, PlayerJoined 3 (Some ''carol'') (Some localState0) None),
        (3, PlayerJoined 3 (Some ''carol'') (Some localState0) None),
        (3, PlayerJoined 1 (Some ''alice'') (Some localState0) (Some (0, 0))),
        (3, PlayerJoined 2 (Some ''bob'') (Some localState0) (Some (0, 0)))]"
proof -
  have general: "sent (handleMessage rnd p 1 (Some (Init nm s)) st) =
     sent st @ map (\<lambda>(i, c). (i, PlayerJoined p nm s None)) (clients st)
             @ map (\<lambda>(i, c). (p, PlayerJoined i (name c) (state c) (Some (kills c, deaths c))))
                   (filter (\<lambda>(i, c). i \<noteq> p \<and> truthy_name (name c)) (clients st))"
    by (simp add: handleMessage_def handle_init_eq)
  have "clients two_joined =
      [(1, \<lparr>name = Some ''alice'', state = Some localState0, kills = 0, deaths = 0, buffer = []\<rparr>),
       (2, \<lparr>name = Some ''bob'', state = Some localState0, kills = 0, deaths = 0, buffer = []\<rparr>),
       (3, new_client)]"
    by (simp add: eval_defs)
  then have "sent (handleMessage rnd 3 1 (Some (Init (Some ''carol'') (Some localState0))) two_joined) =
     sent two_joined @
       [(1, PlayerJoined 3 (Some ''carol'') (Some localState0) None),
        (2, PlayerJoined 3 (Some ''carol'') (Some localState0) None),
        (3, PlayerJoined 3 (Some ''carol'') (Some localState0) None),
        (3, PlayerJoined 1 (Some ''alice'') (Some localState0) (Some (0, 0))),
        (3, PlayerJoined 2 (Some ''bob'') (Some localState0) (Some (0, 0)))]"
    by (simp add: handleMessage_def handle_init_eq truthy_name_def new_client_def)
  with general show ?thesis by (rule conjI)
qed

text \<open>
  C2, as the claim states it, fails: connection 1 closes without ever having sent
  \<open>init\<close>, and connection 2 is sent a \<open>playerLeft\<close> for it.
\<close>

theorem close_before_init_broadcasts:
  "(2, PlayerLeft 1) \<in> set (sent (removeClient 1 two_connected))"
  by (simp add: eval_defs)

text \<open>
  C2, amended: closing a registered connection removes its entry and writes a
  \<open>playerLeft\<close> to every remaining connection, whether or not the connection had sent
  \<open>init\<close>; a close for an id that is not registered changes nothing.
\<close>

theorem removeClient_registered:
  "(k \<in> fst ` set (clients st) \<longrightarrow>
      clients (removeClient k st) = filter (\<lambda>(i, c). i \<noteq> k) (clients st) \<and>
      sent (removeClient k st) =
        sent st @ map (\<lambda>(i, c). (i, PlayerLeft k)) (filter (\<lambda>(i, c). i \<noteq> k) (clients st))) \<and>
   (k \<notin> fst ` set (clients st) \<longrightarrow> removeClient k st = st)"
proof (intro conjI impI)
  assume "k \<in> fst ` set (clients st)"
  then obtain c where "map_of (clients st) k = Some c"
    by (metis domD dom_map_of_conv_image_fst)
  then show "clients (removeClient k st) = filter (\<lambda>(i, c). i \<noteq> k) (clients st)"
    and "sent (removeClient k st) =
        sent st @ map (\<lambda>(i, c). (i, PlayerLeft k)) (filter (\<lambda>(i, c). i \<noteq> k) (clients st))"
    by (simp_all add: removeClient_def broadcast_def)
next
  assume "k \<notin> fst ` set (clients st)"
  then have "map_of (clients st) k = None" by (simp add: map_of_eq_None_iff)
  then show "removeClient k st = st" by (simp add: removeClient_def)
qed

theorem removeClient_registered_witness:
  "1 \<in> fst ` set (clients two_connected) \<and>
   clients (removeClient 1 two_connected) = [(2, new_client)] \<and>
   sent (removeClient 1 two_connected) = sent two_connected @ [(2, PlayerLeft 1)] \<and>
   1 \<notin> fst ` set (clients (removeClient 1 two_connected)) \<and>
   removeClient 1 (removeClient 1 two_connected) = removeClient 1 two_connected"
proof -
  have cs: "clients two_connected = [(1, new_client), (2, new_client)]"
    by (simp add: eval_defs)
  then have h: "1 \<in> fst ` set (clients two_connected)" by simp
  from removeClient_registered [of 1 two_connected] h cs
  have c: "clients (removeClient 1 two_connected) = [(2, new_client)] \<and>
   sent (removeClient 1 two_connected) = sent two_connected @ [(2, PlayerLeft 1)]"
    by simp
  then have h2: "1 \<notin> fst ` set (clients (removeClient 1 two_connected))" by simp
  from removeClient_registered [of 1 "removeClient 1 two_connected"] h2
  have "removeClient 1 (removeClient 1 two_connected) = removeClient 1 two_connected" by blast
  with h c h2 show ?thesis by blast
qed

section \<open>Properties of hit resolution\<close>




text \<open>
  A shot along the z axis from a point of the x axis at a target in the plane of the two
  axes, from the doubles the operations of the test produce.
\<close>

lemma ray_hits_along_z:
  assumes "fl o1 = Some o1" and "fl (a - o1) = Some dx" and "fl (dx * dx) = Some sq"
    and "fl sq = Some sq" and "fl c = Some c"
  shows "ray_hits \<lparr>vx = Some o1, vy = Some 0, vz = Some 0\<rparr> \<lparr>vx = Some 0, vy = Some 0, vz = Some 1\<rparr>
           (state_at a 0 c h) \<longleftrightarrow>
         0 \<le> c \<and> c \<le> 50 \<and> sq < 3242591731706757 / 9007199254740992"
  unfolding ray_hits_def radius_sq
  using assms
  by (auto simp: ray_proj_def ray_distSq_def Let_def state_at_def localState0_def
      fl_add_def fl_sub_def fl_sq_def fl_0 js_lt_def js_gt_def maxDist_def
      fl_mul_def [of "Some dx"] fl_mul_def [of "Some c"] fl_mul_def [of "Some 0"])

lemma ray_hits_axis_10: "ray_hits zero3 unitZ (state_at 0 0 10 h)"
proof -
  have 1: "fl (0 - 0) = Some 0" and 2: "fl (0 * 0) = Some 0" by (simp_all add: fl_0)
  from ray_hits_along_z [OF fl_0 1 2 fl_0 fl_10, of h] show ?thesis
    unfolding zero3_def unitZ_def by simp
qed

lemma ray_hits_axis_20: "ray_hits zero3 unitZ (state_at 0 0 20 h)"
proof -
  have 1: "fl (0 - 0) = Some 0" and 2: "fl (0 * 0) = Some 0" by (simp_all add: fl_0)
  from ray_hits_along_z [OF fl_0 1 2 fl_0 fl_20, of h] show ?thesis
    unfolding zero3_def unitZ_def by simp
qed




lemma ray_hits_health: "ray_hits orig dir (s\<lparr>health := h\<rparr>) = ray_hits orig dir s"
  by (simp add: ray_hits_def ray_proj_def ray_distSq_def)

lemma find_hit_find:
  "find_hit p (Some orig) (Some dir) cs =
     Inr (map_option fst (find (\<lambda>(i, c). i \<noteq> p \<and> (case state c of None \<Rightarrow> False | Some s \<Rightarrow> ray_hits orig dir s)) cs))"
proof (induction cs)
  case Nil
  show ?case by simp
next
  case (Cons a cs)
  obtain i c where a: "a = (i, c)" by (cases a)
  show ?case
  proof (cases "state c")
    case None
    with Cons a show ?thesis by simp
  next
    case (Some s)
    with Cons a show ?thesis by simp
  qed
qed

lemma find_hit_not_shooter: "find_hit p origin direction cs \<noteq> Inr (Some p)"
  by (induction cs) (auto split: option.splits if_splits)

lemma find_hit_member:
  "find_hit p origin direction cs = Inr (Some v) \<Longrightarrow> v \<noteq> p \<and> v \<in> fst ` set cs"
  by (induction cs) (auto split: option.splits if_splits)

lemma map_of_upd_client:
  "map_of (upd_client k f cs) j = (if j = k then map_option f (map_of cs j) else map_of cs j)"
  by (induction cs) (auto simp: upd_client_def)


lemma handle_shoot_kill:
  assumes "find_hit p origin direction (clients st) = Inr (Some v)" and "v \<noteq> 0"
    and "map_of (clients st) v = Some victim" and "state victim = Some vs"
    and "health vs = Some h" and "h - 25 \<le> 0"
  shows "handle_shoot rnd p origin direction st =
     st\<lparr>clients := upd_client v (\<lambda>c. c\<lparr>deaths := deaths c + 1, state := Some (respawn rnd vs)\<rparr>)
                    (upd_client p (\<lambda>c. c\<lparr>kills := kills c + 1\<rparr>) (clients st)),
        sent := sent st @ map (\<lambda>(i, c). (i, PlayerKilled p v)) (clients st)
                        @ map (\<lambda>(i, c). (i, UpdateMsg v (Some (respawn rnd vs)))) (clients st)\<rparr>"
  using assms
  by (simp add: handle_shoot_def Let_def js_sub_def js_le_def broadcast_def map_ids_upd_client)

lemma handle_shoot_damage:
  assumes "find_hit p origin direction (clients st) = Inr (Some v)" and "v \<noteq> 0"
    and "map_of (clients st) v = Some victim" and "state victim = Some vs"
    and "health vs = Some h" and "0 < h - 25"
  shows "handle_shoot rnd p origin direction st =
     st\<lparr>clients := upd_client v (\<lambda>c. c\<lparr>state := Some (vs\<lparr>health := Some (h - 25)\<rparr>)\<rparr>) (clients st)\<rparr>"
  using assms
  by (simp add: handle_shoot_def Let_def js_sub_def js_le_def)

lemma find_hit_upd_health:
  assumes "distinct (map fst cs)" and "map_of cs v = Some victim" and "state victim = Some vs"
  shows "find_hit p origin direction (upd_client v (\<lambda>c. c\<lparr>state := Some (vs\<lparr>health := h\<rparr>)\<rparr>) cs)
         = find_hit p origin direction cs"
  using assms
proof (induction cs)
  case Nil
  then show ?case by simp
next
  case (Cons a cs)
  obtain i c where a: "a = (i, c)" by (cases a)
  show ?case
  proof (cases "i = v")
    case True
    with Cons.prems a have c: "c = victim" by simp
    from Cons.prems a True have "v \<notin> fst ` set cs" by auto
    then have "upd_client v (\<lambda>c. c\<lparr>state := Some (vs\<lparr>health := h\<rparr>)\<rparr>) cs = cs"
      by (induction cs) (auto simp: upd_client_def)
    with True a c Cons.prems(3) show ?thesis
      by (auto simp: upd_client_def ray_hits_health split: option.splits)
  next
    case False
    with Cons.prems a have "map_of cs v = Some victim" "distinct (map fst cs)" by auto
    from Cons.IH [OF this(2) this(1) Cons.prems(3)] False a show ?thesis
      by (auto simp: upd_client_def split: option.splits)
  qed
qed


lemma respawn_health: "respawn rnd (s\<lparr>health := h\<rparr>) = respawn rnd s"
  by (simp add: respawn_def)

lemma damage_step:
  assumes "distinct (map fst (clients st))"
    and "find_hit p origin direction (clients st) = Inr (Some v)" and "v \<noteq> 0"
    and "map_of (clients st) v = Some victim" and "state victim = Some vs"
    and "health vs = Some h" and "0 < h - 25"
  shows "sent (handle_shoot rnd p origin direction st) = sent st"
    and "distinct (map fst (clients (handle_shoot rnd p origin direction st)))"
    and "find_hit p origin direction (clients (handle_shoot rnd p origin direction st)) = Inr (Some v)"
    and "map_of (clients (handle_shoot rnd p origin direction st)) v
           = Some (victim\<lparr>state := Some (vs\<lparr>health := Some (h - 25)\<rparr>)\<rparr>)"
    and "j \<noteq> v \<Longrightarrow> map_of (clients (handle_shoot rnd p origin direction st)) j = map_of (clients st) j"
    and "map (\<lambda>(i, c). (i, m)) (clients (handle_shoot rnd p origin direction st))
           = map (\<lambda>(i, c). (i, m)) (clients st)"
proof -
  note eq = handle_shoot_damage [OF assms(2-7), where rnd = rnd]
  show "sent (handle_shoot rnd p origin direction st) = sent st" by (simp add: eq)
  show "distinct (map fst (clients (handle_shoot rnd p origin direction st)))"
    using assms(1) by (simp add: eq map_fst_upd_client)
  show "find_hit p origin direction (clients (handle_shoot rnd p origin direction st)) = Inr (Some v)"
    using find_hit_upd_health [OF assms(1) assms(4) assms(5)] assms(2) by (simp add: eq)
  show "map_of (clients (handle_shoot rnd p origin direction st)) v
           = Some (victim\<lparr>state := Some (vs\<lparr>health := Some (h - 25)\<rparr>)\<rparr>)"
    using assms(4) by (simp add: eq map_of_upd_client)
  show "j \<noteq> v \<Longrightarrow> map_of (clients (handle_shoot rnd p origin direction st)) j = map_of (clients st) j"
    by (simp add: eq map_of_upd_client)
  show "map (\<lambda>(i, c). (i, m)) (clients (handle_shoot rnd p origin direction st))
           = map (\<lambda>(i, c). (i, m)) (clients st)"
    by (simp add: eq map_ids_upd_client)
qed

lemma kill_step:
  assumes "find_hit p origin direction (clients st) = Inr (Some v)" and "v \<noteq> 0"
    and "map_of (clients st) v = Some victim" and "state victim = Some vs"
    and "health vs = Some h" and "h - 25 \<le> 0"
  shows "sent (handle_shoot rnd p origin direction st) =
           sent st @ map (\<lambda>(i, c). (i, PlayerKilled p v)) (clients st)
                   @ map (\<lambda>(i, c). (i, UpdateMsg v (Some (respawn rnd vs)))) (clients st)"
    and "map_of (clients (handle_shoot rnd p origin direction st)) v
           = Some (victim\<lparr>deaths := deaths victim + 1, state := Some (respawn rnd vs)\<rparr>)"
    and "map_option kills (map_of (clients (handle_shoot rnd p origin direction st)) p)
           = map_option (\<lambda>c. kills c + 1) (map_of (clients st) p)"
proof -
  note eq = handle_shoot_kill [OF assms, where rnd = rnd]
  from find_hit_member [OF assms(1)] have vp: "v \<noteq> p" by simp
  show "sent (handle_shoot rnd p origin direction st) =
           sent st @ map (\<lambda>(i, c). (i, PlayerKilled p v)) (clients st)
                   @ map (\<lambda>(i, c). (i, UpdateMsg v (Some (respawn rnd vs)))) (clients st)"
    by (simp add: eq)
  show "map_of (clients (handle_shoot rnd p origin direction st)) v
           = Some (victim\<lparr>deaths := deaths victim + 1, state := Some (respawn rnd vs)\<rparr>)"
    using assms(3) vp by (simp add: eq map_of_upd_client)
  show "map_option kills (map_of (clients (handle_shoot rnd p origin direction st)) p)
           = map_option (\<lambda>c. kills c + 1) (map_of (clients st) p)"
    using vp by (simp add: eq map_of_upd_client option.map_comp comp_def)
qed

lemma four_hits:
  assumes d: "distinct (map fst (clients st))"
    and f: "find_hit p origin direction (clients st) = Inr (Some v)" and v: "v \<noteq> 0"
    and m: "map_of (clients st) v = Some victim" and s: "state victim = Some vs"
    and h: "health vs = Some 100"
  shows "let s1 = handle_shoot r1 p origin direction st;
             s2 = handle_shoot r2 p origin direction s1;
             s3 = handle_shoot r3 p origin direction s2;
             s4 = handle_shoot r4 p origin direction s3
         in sent s3 = sent st \<and>
            map_of (clients s3) v = Some (victim\<lparr>state := Some (vs\<lparr>health := Some 25\<rparr>)\<rparr>) \<and>
            sent s4 = sent st @ map (\<lambda>(i, c). (i, PlayerKilled p v)) (clients st)
                              @ map (\<lambda>(i, c). (i, UpdateMsg v (Some (respawn r4 vs)))) (clients st) \<and>
            map_of (clients s4) v = Some (victim\<lparr>deaths := deaths victim + 1, state := Some (respawn r4 vs)\<rparr>) \<and>
            map_option kills (map_of (clients s4) p) = map_option (\<lambda>c. kills c + 1) (map_of (clients st) p)"
proof -
  define s1 where "s1 = handle_shoot r1 p origin direction st"
  define s2 where "s2 = handle_shoot r2 p origin direction s1"
  define s3 where "s3 = handle_shoot r3 p origin direction s2"
  define s4 where "s4 = handle_shoot r4 p origin direction s3"
  from find_hit_member [OF f] have vp: "p \<noteq> v" by auto
  have h1: "(0::real) < 100 - 25" by simp
  note a1 = damage_step [OF d f v m s h h1, where rnd = r1, folded s1_def]
  have s1s: "state (victim\<lparr>state := Some (vs\<lparr>health := Some (100 - 25)\<rparr>)\<rparr>) = Some (vs\<lparr>health := Some 75\<rparr>)"
    by simp
  have h75: "health (vs\<lparr>health := Some 75\<rparr>) = Some 75" by simp
  have h2: "(0::real) < 75 - 25" by simp
  note a2 = damage_step [OF a1(2) a1(3) v a1(4) s1s h75 h2, where rnd = r2, folded s2_def]
  have s2s: "state (victim\<lparr>state := Some (vs\<lparr>health := Some (100 - 25)\<rparr>)\<rparr>
                \<lparr>state := Some (vs\<lparr>health := Some 75\<rparr>\<lparr>health := Some (75 - 25)\<rparr>)\<rparr>) = Some (vs\<lparr>health := Some 50\<rparr>)"
    by simp
  have h50: "health (vs\<lparr>health := Some 50\<rparr>) = Some 50" by simp
  have h3: "(0::real) < 50 - 25" by simp
  note a3 = damage_step [OF a2(2) a2(3) v a2(4) s2s h50 h3, where rnd = r3, folded s3_def]
  have v3: "map_of (clients s3) v = Some (victim\<lparr>state := Some (vs\<lparr>health := Some 25\<rparr>)\<rparr>)"
    using a3(4) by simp
  have s3s: "state (victim\<lparr>state := Some (vs\<lparr>health := Some 25\<rparr>)\<rparr>) = Some (vs\<lparr>health := Some 25\<rparr>)"
    by simp
  have h25: "health (vs\<lparr>health := Some 25\<rparr>) = Some 25" by simp
  have h4: "(25::real) - 25 \<le> 0" by simp
  note a4 = kill_step [OF a3(3) v v3 s3s h25 h4, where rnd = r4, folded s4_def]
  have sent3: "sent s3 = sent st" using a1(1) a2(1) a3(1) by simp
  have ids: "\<And>m::smsg. map (\<lambda>(i, c). (i, m)) (clients s3) = map (\<lambda>(i, c). (i, m)) (clients st)"
    by (simp add: a1(6) a2(6) a3(6))
  have p3: "map_of (clients s3) p = map_of (clients st) p"
    using a1(5) [OF vp] a2(5) [OF vp] a3(5) [OF vp] by simp
  have "sent s3 = sent st \<and>
        map_of (clients s3) v = Some (victim\<lparr>state := Some (vs\<lparr>health := Some 25\<rparr>)\<rparr>) \<and>
        sent s4 = sent st @ map (\<lambda>(i, c). (i, PlayerKilled p v)) (clients st)
                          @ map (\<lambda>(i, c). (i, UpdateMsg v (Some (respawn r4 vs)))) (clients st) \<and>
        map_of (clients s4) v = Some (victim\<lparr>deaths := deaths victim + 1, state := Some (respawn r4 vs)\<rparr>) \<and>
        map_option kills (map_of (clients s4) p) = map_option (\<lambda>c. kills c + 1) (map_of (clients st) p)"
    using sent3 v3 a4 ids p3 by (simp add: respawn_health)
  then show ?thesis by (simp add: Let_def s1_def s2_def s3_def s4_def)
qed


lemma list_all_upd_client:
  assumes "list_all (\<lambda>(i, c). P c) cs" and "\<And>c. P c \<Longrightarrow> P (f c)"
  shows "list_all (\<lambda>(i, c). P c) (upd_client k f cs)"
  using assms by (induction cs) (auto simp: upd_client_def split: if_splits)

lemma health_ok_damage:
  assumes "health_ok h" and "\<not> js_le (js_sub h (Some 25)) (Some 0)"
  shows "health_ok (js_sub h (Some 25))"
proof (cases h)
  case None
  then show ?thesis by (simp add: js_sub_def health_ok_def)
next
  case (Some v)
  with assms have "v = of_int \<lfloor>v\<rfloor>" "0 \<le> v" "v \<le> 100" "0 < v - 25"
    by (auto simp: health_ok_def js_sub_def js_le_def)
  moreover from this(1) have "v - 25 = of_int \<lfloor>v - 25\<rfloor>" by simp
  ultimately show ?thesis using Some by (simp add: health_ok_def js_sub_def)
qed

lemma health_inv_shoot:
  assumes "health_inv st"
  shows "health_inv (handle_shoot rnd p origin direction st)"
proof -
  have inv: "list_all (\<lambda>(i, c). state_ok (state c)) (clients st)"
    using assms by (simp add: health_inv_def)
  show ?thesis
  proof (cases "find_hit p origin direction (clients st)")
    case (Inl e)
    with assms show ?thesis by (simp add: handle_shoot_def)
  next
    case (Inr r)
    show ?thesis
    proof (cases r)
      case None
      with Inr assms show ?thesis by (simp add: handle_shoot_def)
    next
      case (Some v)
      show ?thesis
      proof (cases "v = 0 \<or> map_of (clients st) v = None \<or> (\<exists>c. map_of (clients st) v = Some c \<and> state c = None)")
        case True
        with Inr Some assms show ?thesis by (auto simp: handle_shoot_def)
      next
        case False
        then obtain victim vs where v: "v \<noteq> 0" "map_of (clients st) v = Some victim" "state victim = Some vs"
          by auto
        from v(2) have "(v, victim) \<in> set (clients st)" by (rule map_of_SomeD)
        with inv v(3) have ok: "health_ok (health vs)"
          by (auto simp: list_all_iff state_ok_def)
        show ?thesis
        proof (cases "js_le (js_sub (health vs) (Some 25)) (Some 0)")
          case True
          have "list_all (\<lambda>(i, c). state_ok (state c))
                  (upd_client v (\<lambda>c. c\<lparr>deaths := deaths c + 1, state := Some (respawn rnd vs)\<rparr>)
                     (upd_client p (\<lambda>c. c\<lparr>kills := kills c + 1\<rparr>) (clients st)))"
            by (intro list_all_upd_client [where P = "\<lambda>c. state_ok (state c)"] inv)
               (simp_all add: state_ok_def health_ok_def respawn_def)
          with Inr Some v True show ?thesis
            by (simp add: handle_shoot_def Let_def health_inv_def broadcast_def)
        next
          case False
          have "list_all (\<lambda>(i, c). state_ok (state c))
                  (upd_client v (\<lambda>c. c\<lparr>state := Some (vs\<lparr>health := js_sub (health vs) (Some 25)\<rparr>)\<rparr>) (clients st))"
            using health_ok_damage [OF ok False]
            by (intro list_all_upd_client [where P = "\<lambda>c. state_ok (state c)"] inv)
               (simp_all add: state_ok_def)
          with Inr Some v False show ?thesis
            by (simp add: handle_shoot_def Let_def health_inv_def)
        qed
      qed
    qed
  qed
qed

lemma shoot_others_unchanged:
  assumes "j \<noteq> p" and "find_hit p origin direction (clients st) \<noteq> Inr (Some j)"
  shows "map_of (clients (handle_shoot rnd p origin direction st)) j = map_of (clients st) j"
  using assms
  by (auto simp: handle_shoot_def Let_def map_of_upd_client broadcast_def split: sum.splits option.splits)


lemma handleMessage_shoot:
  "handleMessage rnd p 1 (Some (Shoot origin direction)) st = handle_shoot rnd p origin direction st"
  by (simp add: handleMessage_def)

lemma clients_duel:
  "clients (duel tgt) = [(1, player ''alice'' (state_at 0 0 0 100)), (2, player ''bob'' tgt)]"
  by (simp add: duel_def two_connected_def handleMessage_def handle_init_eq upgrade_def init_server_def
      map_set_def sendWS_def Let_def new_client_def upd_client_def player_def)

lemma clients_three_in_line:
  "clients three_in_line =
     [(1, player ''alice'' (state_at 0 0 0 100)), (2, player ''bob'' (state_at 0 0 20 100)),
      (3, player ''carol'' (state_at 0 0 10 100))]"
  by (simp add: three_in_line_def handleMessage_def handle_init_eq upgrade_def init_server_def
      map_set_def sendWS_def Let_def new_client_def upd_client_def player_def)

lemma respawn_range:
  assumes "0 \<le> fst rnd" "fst rnd < 1" "0 \<le> snd rnd" "snd rnd < 1"
  shows "health (respawn rnd vs) = Some 100 \<and> pos_y (respawn rnd vs) = Some (16 / 10) \<and>
         (\<exists>a b. pos_x (respawn rnd vs) = Some a \<and> pos_z (respawn rnd vs) = Some b \<and>
                - 10 \<le> a \<and> a \<le> 10 \<and> - 10 \<le> b \<and> b \<le> 10)"
  using assms by (simp add: respawn_def)

lemma find_hit_duel:
  "find_hit 1 orig dir (clients (duel tgt)) =
     (case orig of None \<Rightarrow> Inl TypeError
      | Some o3 \<Rightarrow> (case dir of None \<Rightarrow> Inl TypeError
          | Some d3 \<Rightarrow> Inr (if ray_hits o3 d3 tgt then Some 2 else None)))"
  by (simp add: clients_duel player_def split: option.splits)

lemma find_hit_duel_axis:
  "find_hit 1 (Some zero3) (Some unitZ) (clients (duel (state_at 0 0 10 h))) = Inr (Some 2)"
  unfolding find_hit_duel using ray_hits_axis_10 [of h] by simp


text \<open>
  C5: the loop returns the first entry in registry order that is not the shooter, has a
  state and passes the test; it never returns the shooter; a shot leaves every client
  that is neither the shooter nor the returned entry as it was; and with two targets on
  the ray the earlier entry is returned, although the later one is nearer.
\<close>

theorem find_hit_first_in_order:
  "find_hit p (Some orig) (Some dir) cs =
     Inr (map_option fst (find (\<lambda>(i, c). i \<noteq> p \<and> (case state c of None \<Rightarrow> False | Some s \<Rightarrow> ray_hits orig dir s)) cs))
   \<and> find_hit p origin direction cs \<noteq> Inr (Some p)
   \<and> (\<forall>j. j \<noteq> p \<and> find_hit p origin direction (clients st) \<noteq> Inr (Some j) \<longrightarrow>
          map_of (clients (handleMessage rnd p 1 (Some (Shoot origin direction)) st)) j = map_of (clients st) j)
   \<and> find_hit 1 (Some zero3) (Some unitZ) (clients three_in_line) = Inr (Some 2)"
proof -
  have "find_hit 1 (Some zero3) (Some unitZ) (clients three_in_line) = Inr (Some 2)"
    by (simp add: clients_three_in_line player_def ray_hits_axis_20)
  moreover have "\<forall>j. j \<noteq> p \<and> find_hit p origin direction (clients st) \<noteq> Inr (Some j) \<longrightarrow>
          map_of (clients (handleMessage rnd p 1 (Some (Shoot origin direction)) st)) j = map_of (clients st) j"
    unfolding handleMessage_shoot using shoot_others_unchanged by blast
  ultimately show ?thesis
    using find_hit_find [of p orig dir cs] find_hit_not_shooter [of p origin direction cs] by blast
qed

theorem find_hit_first_in_order_witness:
  "(3 \<noteq> (1::nat) \<and> find_hit 1 (Some zero3) (Some unitZ) (clients three_in_line) \<noteq> Inr (Some 3))
   \<and> map_of (clients (handleMessage (0, 0) 1 1 (Some (Shoot (Some zero3) (Some unitZ))) three_in_line)) 3
       = map_of (clients three_in_line) 3
   \<and> find_hit 1 (Some zero3) (Some unitZ) (clients three_in_line) = Inr (Some 2)"
proof -
  note t = find_hit_first_in_order [where p = 1 and origin = "Some zero3" and direction = "Some unitZ"
      and st = three_in_line and rnd = "(0, 0)" and orig = zero3 and dir = unitZ and cs = "clients three_in_line"]
  from t have f: "find_hit 1 (Some zero3) (Some unitZ) (clients three_in_line) = Inr (Some 2)"
    by (elim conjE)
  then have h: "3 \<noteq> (1::nat) \<and> find_hit 1 (Some zero3) (Some unitZ) (clients three_in_line) \<noteq> Inr (Some 3)"
    by simp
  from t h have "map_of (clients (handleMessage (0, 0) 1 1 (Some (Shoot (Some zero3) (Some unitZ))) three_in_line)) 3
       = map_of (clients three_in_line) 3"
    by blast
  with h f show ?thesis by blast
qed


text \<open>
  C6: a hit that brings the victim's health to 0 or below adds one kill to the shooter and
  one death to the victim, stores the respawn state (health 100, height 1.6, x and z from
  -10 to 10) and writes \<open>playerKilled\<close> to every connection and then \<open>update\<close> with
  the respawn state to every connection. Four shots in a row at a victim with health 100
  write nothing for the first three and one \<open>playerKilled\<close> and one \<open>update\<close> per
  connection for the fourth, with one death and one kill counted. The id 0 is left out,
  since \<open>if (hitId)\<close> is false for it; the server never assigns it.
\<close>

theorem kill_respawn_and_four_hits:
  "(find_hit p origin direction (clients st) = Inr (Some v) \<and> v \<noteq> 0 \<and>
    map_of (clients st) v = Some victim \<and> state victim = Some vs \<and> health vs = Some h \<and> h - 25 \<le> 0 \<and>
    0 \<le> fst rnd \<and> fst rnd < 1 \<and> 0 \<le> snd rnd \<and> snd rnd < 1 \<longrightarrow>
    (let st' = handleMessage rnd p 1 (Some (Shoot origin direction)) st;
         vs' = respawn rnd vs
     in map_option kills (map_of (clients st') p) = map_option (\<lambda>c. kills c + 1) (map_of (clients st) p) \<and>
        map_of (clients st') v = Some (victim\<lparr>deaths := deaths victim + 1, state := Some vs'\<rparr>) \<and>
        health vs' = Some 100 \<and> pos_y vs' = Some (16 / 10) \<and>
        (\<exists>a b. pos_x vs' = Some a \<and> pos_z vs' = Some b \<and> - 10 \<le> a \<and> a \<le> 10 \<and> - 10 \<le> b \<and> b \<le> 10) \<and>
        sent st' = sent st @ map (\<lambda>(i, c). (i, PlayerKilled p v)) (clients st)
                          @ map (\<lambda>(i, c). (i, UpdateMsg v (Some vs'))) (clients st)))
   \<and>
   (distinct (map fst (clients st)) \<and> find_hit p origin direction (clients st) = Inr (Some v) \<and> v \<noteq> 0 \<and>
    map_of (clients st) v = Some victim \<and> state victim = Some vs \<and> health vs = Some 100 \<longrightarrow>
    (let s1 = handleMessage rnda p 1 (Some (Shoot origin direction)) st;
         s2 = handleMessage rndb p 1 (Some (Shoot origin direction)) s1;
         s3 = handleMessage rndc p 1 (Some (Shoot origin direction)) s2;
         s4 = handleMessage rndd p 1 (Some (Shoot origin direction)) s3
     in sent s3 = sent st \<and>
        map_of (clients s3) v = Some (victim\<lparr>state := Some (vs\<lparr>health := Some 25\<rparr>)\<rparr>) \<and>
        sent s4 = sent st @ map (\<lambda>(i, c). (i, PlayerKilled p v)) (clients st)
                          @ map (\<lambda>(i, c). (i, UpdateMsg v (Some (respawn rndd vs)))) (clients st) \<and>
        map_of (clients s4) v = Some (victim\<lparr>deaths := deaths victim + 1, state := Some (respawn rndd vs)\<rparr>) \<and>
        map_option kills (map_of (clients s4) p) = map_option (\<lambda>c. kills c + 1) (map_of (clients st) p)))"
proof (intro conjI impI)
  assume a: "find_hit p origin direction (clients st) = Inr (Some v) \<and> v \<noteq> 0 \<and>
    map_of (clients st) v = Some victim \<and> state victim = Some vs \<and> health vs = Some h \<and> h - 25 \<le> 0 \<and>
    0 \<le> fst rnd \<and> fst rnd < 1 \<and> 0 \<le> snd rnd \<and> snd rnd < 1"
  then have k: "find_hit p origin direction (clients st) = Inr (Some v)" "v \<noteq> 0"
    "map_of (clients st) v = Some victim" "state victim = Some vs" "health vs = Some h" "h - 25 \<le> 0"
    and r: "0 \<le> fst rnd" "fst rnd < 1" "0 \<le> snd rnd" "snd rnd < 1"
    by simp_all
  from kill_step [OF k, where rnd = rnd] respawn_range [OF r, of vs]
  show "let st' = handleMessage rnd p 1 (Some (Shoot origin direction)) st;
         vs' = respawn rnd vs
     in map_option kills (map_of (clients st') p) = map_option (\<lambda>c. kills c + 1) (map_of (clients st) p) \<and>
        map_of (clients st') v = Some (victim\<lparr>deaths := deaths victim + 1, state := Some vs'\<rparr>) \<and>
        health vs' = Some 100 \<and> pos_y vs' = Some (16 / 10) \<and>
        (\<exists>a b. pos_x vs' = Some a \<and> pos_z vs' = Some b \<and> - 10 \<le> a \<and> a \<le> 10 \<and> - 10 \<le> b \<and> b \<le> 10) \<and>
        sent st' = sent st @ map (\<lambda>(i, c). (i, PlayerKilled p v)) (clients st)
                          @ map (\<lambda>(i, c). (i, UpdateMsg v (Some vs'))) (clients st)"
    unfolding Let_def handleMessage_shoot by blast
next
  assume a: "distinct (map fst (clients st)) \<and> find_hit p origin direction (clients st) = Inr (Some v) \<and> v \<noteq> 0 \<and>
    map_of (clients st) v = Some victim \<and> state victim = Some vs \<and> health vs = Some 100"
  then have k: "distinct (map fst (clients st))" "find_hit p origin direction (clients st) = Inr (Some v)" "v \<noteq> 0"
    "map_of (clients st) v = Some victim" "state victim = Some vs" "health vs = Some 100"
    by simp_all
  from four_hits [OF k, of rnda rndb rndc rndd]
  show "let s1 = handleMessage rnda p 1 (Some (Shoot origin direction)) st;
         s2 = handleMessage rndb p 1 (Some (Shoot origin direction)) s1;
         s3 = handleMessage rndc p 1 (Some (Shoot origin direction)) s2;
         s4 = handleMessage rndd p 1 (Some (Shoot origin direction)) s3
     in sent s3 = sent st \<and>
        map_of (clients s3) v = Some (victim\<lparr>state := Some (vs\<lparr>health := Some 25\<rparr>)\<rparr>) \<and>
        sent s4 = sent st @ map (\<lambda>(i, c). (i, PlayerKilled p v)) (clients st)
                          @ map (\<lambda>(i, c). (i, UpdateMsg v (Some (respawn rndd vs)))) (clients st) \<and>
        map_of (clients s4) v = Some (victim\<lparr>deaths := deaths victim + 1, state := Some (respawn rndd vs)\<rparr>) \<and>
        map_option kills (map_of (clients s4) p) = map_option (\<lambda>c. kills c + 1) (map_of (clients st) p)"
    unfolding handleMessage_shoot .
qed

theorem kill_respawn_and_four_hits_witness:
  "(find_hit 1 (Some zero3) (Some unitZ) (clients (duel (state_at 0 0 10 25))) = Inr (Some 2) \<and> (2::nat) \<noteq> 0 \<and>
    map_of (clients (duel (state_at 0 0 10 25))) 2 = Some (player ''bob'' (state_at 0 0 10 25)) \<and>
    state (player ''bob'' (state_at 0 0 10 25)) = Some (state_at 0 0 10 25) \<and>
    health (state_at 0 0 10 25) = Some 25 \<and> (25::real) - 25 \<le> 0 \<and>
    (0::real) \<le> fst (1 / 2 :: real, 1 / 4 :: real) \<and> fst (1 / 2 :: real, 1 / 4 :: real) < (1::real) \<and>
    (0::real) \<le> snd (1 / 2 :: real, 1 / 4 :: real) \<and> snd (1 / 2 :: real, 1 / 4 :: real) < (1::real)) \<and>
   sent (handleMessage (1 / 2, 1 / 4) 1 1 (Some (Shoot (Some zero3) (Some unitZ))) (duel (state_at 0 0 10 25)))
     = sent (duel (state_at 0 0 10 25)) @
       [(1, PlayerKilled 1 2), (2, PlayerKilled 1 2),
        (1, UpdateMsg 2 (Some (state_at 0 (16 / 10) (- 5) 100))),
        (2, UpdateMsg 2 (Some (state_at 0 (16 / 10) (- 5) 100)))] \<and>
   map_of (clients (handleMessage (1 / 2, 1 / 4) 1 1 (Some (Shoot (Some zero3) (Some unitZ))) (duel (state_at 0 0 10 25)))) 2
     = Some ((player ''bob'' (state_at 0 (16 / 10) (- 5) 100))\<lparr>deaths := 1\<rparr>) \<and>
   (distinct (map fst (clients (duel (state_at 0 0 10 100)))) \<and>
    find_hit 1 (Some zero3) (Some unitZ) (clients (duel (state_at 0 0 10 100))) = Inr (Some 2) \<and> (2::nat) \<noteq> 0 \<and>
    map_of (clients (duel (state_at 0 0 10 100))) 2 = Some (player ''bob'' (state_at 0 0 10 100)) \<and>
    state (player ''bob'' (state_at 0 0 10 100)) = Some (state_at 0 0 10 100) \<and>
    health (state_at 0 0 10 100) = Some 100) \<and>
   (let s1 = handleMessage (0, 0) 1 1 (Some (Shoot (Some zero3) (Some unitZ))) (duel (state_at 0 0 10 100));
        s2 = handleMessage (0, 0) 1 1 (Some (Shoot (Some zero3) (Some unitZ))) s1;
        s3 = handleMessage (0, 0) 1 1 (Some (Shoot (Some zero3) (Some unitZ))) s2;
        s4 = handleMessage (1 / 2, 1 / 4) 1 1 (Some (Shoot (Some zero3) (Some unitZ))) s3
    in sent s3 = sent (duel (state_at 0 0 10 100)) \<and>
       sent s4 = sent (duel (state_at 0 0 10 100)) @
         [(1, PlayerKilled 1 2), (2, PlayerKilled 1 2),
          (1, UpdateMsg 2 (Some (state_at 0 (16 / 10) (- 5) 100))),
          (2, UpdateMsg 2 (Some (state_at 0 (16 / 10) (- 5) 100)))] \<and>
       map_of (clients s4) 2 = Some ((player ''bob'' (state_at 0 (16 / 10) (- 5) 100))\<lparr>deaths := 1\<rparr>) \<and>
       map_option kills (map_of (clients s4) 1) = Some 1)"
proof -
  have rs: "\<And>a b c h. respawn (1 / 2, 1 / 4) (state_at a b c h) = state_at 0 (16 / 10) (- 5) 100"
    by (simp add: respawn_def state_at_def localState0_def)
  have H1: "find_hit 1 (Some zero3) (Some unitZ) (clients (duel (state_at 0 0 10 25))) = Inr (Some 2) \<and> (2::nat) \<noteq> 0 \<and>
    map_of (clients (duel (state_at 0 0 10 25))) 2 = Some (player ''bob'' (state_at 0 0 10 25)) \<and>
    state (player ''bob'' (state_at 0 0 10 25)) = Some (state_at 0 0 10 25) \<and>
    health (state_at 0 0 10 25) = Some 25 \<and> (25::real) - 25 \<le> 0 \<and>
    (0::real) \<le> fst (1 / 2 :: real, 1 / 4 :: real) \<and> fst (1 / 2 :: real, 1 / 4 :: real) < (1::real) \<and>
    (0::real) \<le> snd (1 / 2 :: real, 1 / 4 :: real) \<and> snd (1 / 2 :: real, 1 / 4 :: real) < (1::real)"
    using find_hit_duel_axis [of 25] by (simp add: clients_duel player_def state_at_def)
  have H2: "distinct (map fst (clients (duel (state_at 0 0 10 100)))) \<and>
    find_hit 1 (Some zero3) (Some unitZ) (clients (duel (state_at 0 0 10 100))) = Inr (Some 2) \<and> (2::nat) \<noteq> 0 \<and>
    map_of (clients (duel (state_at 0 0 10 100))) 2 = Some (player ''bob'' (state_at 0 0 10 100)) \<and>
    state (player ''bob'' (state_at 0 0 10 100)) = Some (state_at 0 0 10 100) \<and>
    health (state_at 0 0 10 100) = Some 100"
    using find_hit_duel_axis [of 100] by (simp add: clients_duel player_def state_at_def)
  note t1 = kill_respawn_and_four_hits [where p = 1 and origin = "Some zero3" and direction = "Some unitZ"
      and st = "duel (state_at 0 0 10 25)" and v = 2 and victim = "player ''bob'' (state_at 0 0 10 25)"
      and vs = "state_at 0 0 10 25" and h = 25 and rnd = "(1 / 2, 1 / 4)", THEN conjunct1, rule_format, OF H1]
  note t2 = kill_respawn_and_four_hits [where p = 1 and origin = "Some zero3" and direction = "Some unitZ"
      and st = "duel (state_at 0 0 10 100)" and v = 2 and victim = "player ''bob'' (state_at 0 0 10 100)"
      and vs = "state_at 0 0 10 100" and rnda = "(0, 0)" and rndb = "(0, 0)" and rndc = "(0, 0)"
      and rndd = "(1 / 2, 1 / 4)", THEN conjunct2, rule_format, OF H2]
  have C1: "sent (handleMessage (1 / 2, 1 / 4) 1 1 (Some (Shoot (Some zero3) (Some unitZ))) (duel (state_at 0 0 10 25)))
     = sent (duel (state_at 0 0 10 25)) @
       [(1, PlayerKilled 1 2), (2, PlayerKilled 1 2),
        (1, UpdateMsg 2 (Some (state_at 0 (16 / 10) (- 5) 100))),
        (2, UpdateMsg 2 (Some (state_at 0 (16 / 10) (- 5) 100)))] \<and>
   map_of (clients (handleMessage (1 / 2, 1 / 4) 1 1 (Some (Shoot (Some zero3) (Some unitZ))) (duel (state_at 0 0 10 25)))) 2
     = Some ((player ''bob'' (state_at 0 (16 / 10) (- 5) 100))\<lparr>deaths := 1\<rparr>)"
    using t1 unfolding Let_def rs by (simp add: clients_duel player_def)
  have C2: "let s1 = handleMessage (0, 0) 1 1 (Some (Shoot (Some zero3) (Some unitZ))) (duel (state_at 0 0 10 100));
        s2 = handleMessage (0, 0) 1 1 (Some (Shoot (Some zero3) (Some unitZ))) s1;
        s3 = handleMessage (0, 0) 1 1 (Some (Shoot (Some zero3) (Some unitZ))) s2;
        s4 = handleMessage (1 / 2, 1 / 4) 1 1 (Some (Shoot (Some zero3) (Some unitZ))) s3
    in sent s3 = sent (duel (state_at 0 0 10 100)) \<and>
       sent s4 = sent (duel (state_at 0 0 10 100)) @
         [(1, PlayerKilled 1 2), (2, PlayerKilled 1 2),
          (1, UpdateMsg 2 (Some (state_at 0 (16 / 10) (- 5) 100))),
          (2, UpdateMsg 2 (Some (state_at 0 (16 / 10) (- 5) 100)))] \<and>
       map_of (clients s4) 2 = Some ((player ''bob'' (state_at 0 (16 / 10) (- 5) 100))\<lparr>deaths := 1\<rparr>) \<and>
       map_option kills (map_of (clients s4) 1) = Some 1"
    using t2 unfolding Let_def rs by (simp add: clients_duel player_def)
  from H1 C1 H2 C2 show ?thesis by blast
qed

text \<open>
  C7: a hit that leaves the victim's health above 0 writes nothing to any socket, and the
  state after it is the state before it with the victim's health lowered by 25: the ids
  in the registry, every other client and every other field of the victim are as before.
\<close>

theorem partial_damage_only_changes_health:
  assumes "find_hit p origin direction (clients st) = Inr (Some v)" and "v \<noteq> 0"
    and "map_of (clients st) v = Some victim" and "state victim = Some vs"
    and "health vs = Some h" and "0 < h - 25"
  shows "handleMessage rnd p 1 (Some (Shoot origin direction)) st =
           st\<lparr>clients := upd_client v (\<lambda>c. c\<lparr>state := Some (vs\<lparr>health := Some (h - 25)\<rparr>)\<rparr>) (clients st)\<rparr> \<and>
         sent (handleMessage rnd p 1 (Some (Shoot origin direction)) st) = sent st \<and>
         map fst (clients (handleMessage rnd p 1 (Some (Shoot origin direction)) st)) = map fst (clients st) \<and>
         map_of (clients (handleMessage rnd p 1 (Some (Shoot origin direction)) st)) v
           = Some (victim\<lparr>state := Some (vs\<lparr>health := Some (h - 25)\<rparr>)\<rparr>) \<and>
         (\<forall>j. j \<noteq> v \<longrightarrow>
            map_of (clients (handleMessage rnd p 1 (Some (Shoot origin direction)) st)) j = map_of (clients st) j)"
  unfolding handleMessage_shoot handle_shoot_damage [OF assms]
  using assms(3) by (simp add: map_fst_upd_client map_of_upd_client)


theorem partial_damage_only_changes_health_witness:
  "find_hit 1 (Some zero3) (Some unitZ) (clients (duel (state_at 0 0 10 100))) = Inr (Some 2) \<and>
   (2::nat) \<noteq> 0 \<and>
   map_of (clients (duel (state_at 0 0 10 100))) 2 = Some (player ''bob'' (state_at 0 0 10 100)) \<and>
   state (player ''bob'' (state_at 0 0 10 100)) = Some (state_at 0 0 10 100) \<and>
   health (state_at 0 0 10 100) = Some 100 \<and> (0::real) < 100 - 25 \<and>
   sent (handleMessage (0, 0) 1 1 (Some (Shoot (Some zero3) (Some unitZ))) (duel (state_at 0 0 10 100)))
     = sent (duel (state_at 0 0 10 100)) \<and>
   clients (handleMessage (0, 0) 1 1 (Some (Shoot (Some zero3) (Some unitZ))) (duel (state_at 0 0 10 100)))
     = [(1, player ''alice'' (state_at 0 0 0 100)), (2, player ''bob'' (state_at 0 0 10 75))]"
proof -
  have h1: "find_hit 1 (Some zero3) (Some unitZ) (clients (duel (state_at 0 0 10 100))) = Inr (Some 2)"
    using find_hit_duel_axis [of 100] by simp
  have h2: "(2::nat) \<noteq> 0" by simp
  have h3: "map_of (clients (duel (state_at 0 0 10 100))) 2 = Some (player ''bob'' (state_at 0 0 10 100))"
    by (simp add: clients_duel)
  have h4: "state (player ''bob'' (state_at 0 0 10 100)) = Some (state_at 0 0 10 100)"
    by (simp add: player_def)
  have h5: "health (state_at 0 0 10 100) = Some 100" by (simp add: state_at_def)
  have h6: "(0::real) < 100 - 25" by simp
  note t = partial_damage_only_changes_health [OF h1 h2 h3 h4 h5 h6, where rnd = "(0, 0)"]
  from t have "sent (handleMessage (0, 0) 1 1 (Some (Shoot (Some zero3) (Some unitZ))) (duel (state_at 0 0 10 100)))
     = sent (duel (state_at 0 0 10 100))" by (elim conjE)
  moreover from t have "clients (handleMessage (0, 0) 1 1 (Some (Shoot (Some zero3) (Some unitZ))) (duel (state_at 0 0 10 100)))
     = upd_client 2 (\<lambda>c. c\<lparr>state := Some (state_at 0 0 10 100\<lparr>health := Some (100 - 25)\<rparr>)\<rparr>) (clients (duel (state_at 0 0 10 100)))"
    by simp
  then have "clients (handleMessage (0, 0) 1 1 (Some (Shoot (Some zero3) (Some unitZ))) (duel (state_at 0 0 10 100)))
     = [(1, player ''alice'' (state_at 0 0 0 100)), (2, player ''bob'' (state_at 0 0 10 75))]"
    by (simp add: clients_duel upd_client_def player_def state_at_def)
  ultimately show ?thesis using h1 h2 h3 h4 h5 h6 by blast
qed

text \<open>
  C3, as the claim states it, fails: \<open>update\<close> stores what the client sends. In a state
  where every health is in the range, bob sends an update with health -5, and the range
  no longer holds.
\<close>

theorem update_stores_negative_health:
  "health_inv (duel localState0) \<and>
   \<not> health_inv (handleMessage (0, 0) 2 1 (Some (Update (Some (state_at 0 0 10 (- 5))))) (duel localState0))"
  by (simp add: health_inv_def clients_duel player_def handleMessage_def handle_update_def broadcastExcept_def
      upd_client_def state_ok_def health_ok_def state_at_def localState0_def)

lemma health_inv_handleMessage:
  assumes "health_inv st" and "msg_ok m"
  shows "health_inv (handleMessage rnd p opcode m st)"
proof (cases "opcode = 1")
  case False
  with assms show ?thesis by (simp add: handleMessage_def)
next
  case True
  show ?thesis
  proof (cases m)
    case None
    with assms show ?thesis by (simp add: handleMessage_def)
  next
    case (Some d)
    have inv: "list_all (\<lambda>(i, c). state_ok (state c)) (clients st)"
      using assms by (simp add: health_inv_def)
    show ?thesis
    proof (cases d)
      case (Init nm s)
      with assms Some have "state_ok s" by (simp add: msg_ok_def)
      then have "list_all (\<lambda>(i, c). state_ok (state c)) (upd_client p (\<lambda>c. c\<lparr>name := nm, state := s\<rparr>) (clients st))"
        by (intro list_all_upd_client [where P = "\<lambda>c. state_ok (state c)"] inv) simp
      with Some Init True show ?thesis
        by (simp add: handleMessage_def handle_init_eq health_inv_def)
    next
      case (Update s)
      with assms Some have "state_ok s" by (simp add: msg_ok_def)
      then have "list_all (\<lambda>(i, c). state_ok (state c)) (upd_client p (\<lambda>c. c\<lparr>state := s\<rparr>) (clients st))"
        by (intro list_all_upd_client [where P = "\<lambda>c. state_ok (state c)"] inv) simp
      with Some Update True show ?thesis
        by (simp add: handleMessage_def handle_update_def broadcastExcept_def health_inv_def)
    next
      case (Shoot origin direction)
      with Some True health_inv_shoot [OF assms(1)] show ?thesis
        by (simp add: handleMessage_def)
    next
      case Other
      with Some assms show ?thesis by (simp add: handleMessage_def)
    qed
  qed
qed

lemma health_inv_step:
  assumes "health_inv st" and "event_ok ev"
  shows "health_inv (step ev st)"
proof (cases ev)
  case (Connect k)
  have "state_ok (state new_client)"
    by (simp add: new_client_def state_ok_def health_ok_def empty_state_def)
  have inv: "list_all (\<lambda>(i, c). state_ok (state c)) (clients st)"
    using assms(1) by (simp add: health_inv_def)
  have "list_all (\<lambda>(i, c). state_ok (state c)) (upd_client (nextId st) (\<lambda>_. new_client) (clients st))"
    by (intro list_all_upd_client [where P = "\<lambda>c. state_ok (state c)"] inv)
       (simp add: new_client_def state_ok_def health_ok_def empty_state_def)
  with assms(1) Connect \<open>state_ok (state new_client)\<close> show ?thesis
    by (simp add: health_inv_def upgrade_def Let_def sendWS_def map_set_def)
next
  case (Message rnd p opcode m)
  with assms health_inv_handleMessage [of st m rnd p opcode] show ?thesis
    by (simp add: event_ok_def)
next
  case (Close k)
  with assms(1) show ?thesis
    by (auto simp: health_inv_def removeClient_def broadcast_def list_all_iff split: option.splits)
qed

lemma health_inv_run:
  assumes "health_inv st" and "list_all event_ok evs"
  shows "health_inv (run evs st)"
  using assms unfolding run_def
  by (induction evs arbitrary: st) (auto intro: health_inv_step)

text \<open>
  C3, amended: a message handler keeps every stored health that is a number an integer
  from 0 to 100 when the state that an \<open>init\<close> or \<open>update\<close> carries has such a health;
  \<open>shoot\<close> keeps the range without a condition, since a health that would fall to 0 or
  below is reset to 100. So the range holds in every state reached by a run in which the
  clients submit no health outside it. An \<open>update\<close> stores the submitted state as it
  is.
\<close>

theorem handleMessage_preserves_health_range:
  "(health_inv st \<and> msg_ok m \<longrightarrow> health_inv (handleMessage rnd p opcode m st)) \<and>
   (health_inv st \<longrightarrow> health_inv (handleMessage rnd p opcode (Some (Shoot origin direction)) st)) \<and>
   (list_all event_ok evs \<longrightarrow> health_inv (run evs init_server)) \<and>
   map_of (clients (handleMessage rnd p 1 (Some (Update s)) st)) p
     = map_option (\<lambda>c. c\<lparr>state := s\<rparr>) (map_of (clients st) p)"
proof (intro conjI impI)
  show "map_of (clients (handleMessage rnd p 1 (Some (Update s)) st)) p
     = map_option (\<lambda>c. c\<lparr>state := s\<rparr>) (map_of (clients st) p)"
    by (simp add: handleMessage_def handle_update_def broadcastExcept_def map_of_upd_client)
next
  assume "health_inv st \<and> msg_ok m"
  then show "health_inv (handleMessage rnd p opcode m st)"
    using health_inv_handleMessage by blast
next
  assume "health_inv st"
  moreover have "msg_ok (Some (Shoot origin direction))" by (simp add: msg_ok_def)
  ultimately show "health_inv (handleMessage rnd p opcode (Some (Shoot origin direction)) st)"
    by (rule health_inv_handleMessage)
next
  assume "list_all event_ok evs"
  moreover have "health_inv init_server" by (simp add: health_inv_def init_server_def)
  ultimately show "health_inv (run evs init_server)" by (rule health_inv_run [rotated])
qed

theorem handleMessage_preserves_health_range_witness:
  "(health_inv (duel (state_at 0 0 10 25)) \<and> msg_ok (Some (Update (Some (state_at 1 0 10 25))))) \<and>
   health_inv (handleMessage (0, 0) 2 1 (Some (Update (Some (state_at 1 0 10 25)))) (duel (state_at 0 0 10 25))) \<and>
   health_inv (handleMessage (1 / 2, 1 / 4) 1 1 (Some (Shoot (Some zero3) (Some unitZ))) (duel (state_at 0 0 10 25))) \<and>
   list_all event_ok [Connect True, Message (0, 0) 1 1 (Some (Init (Some ''alice'') (Some localState0)))] \<and>
   health_inv (run [Connect True, Message (0, 0) 1 1 (Some (Init (Some ''alice'') (Some localState0)))] init_server)"
proof -
  have h1: "health_inv (duel (state_at 0 0 10 25))"
    by (simp add: health_inv_def clients_duel player_def state_ok_def health_ok_def state_at_def localState0_def)
  have h2: "msg_ok (Some (Update (Some (state_at 1 0 10 25))))"
    by (simp add: msg_ok_def state_ok_def health_ok_def state_at_def)
  have h3: "list_all event_ok [Connect True, Message (0, 0) 1 1 (Some (Init (Some ''alice'') (Some localState0)))]"
    by (simp add: event_ok_def msg_ok_def state_ok_def health_ok_def localState0_def)
  note t = handleMessage_preserves_health_range
  from t [of "duel (state_at 0 0 10 25)" "Some (Update (Some (state_at 1 0 10 25)))" "(0, 0)" 2 1] h1 h2
  have c1: "health_inv (handleMessage (0, 0) 2 1 (Some (Update (Some (state_at 1 0 10 25)))) (duel (state_at 0 0 10 25)))"
    by blast
  from t [where st = "duel (state_at 0 0 10 25)" and rnd = "(1 / 2, 1 / 4)" and p = 1 and opcode = 1
      and origin = "Some zero3" and direction = "Some unitZ"] h1
  have c2: "health_inv (handleMessage (1 / 2, 1 / 4) 1 1 (Some (Shoot (Some zero3) (Some unitZ))) (duel (state_at 0 0 10 25)))"
    by blast
  from t [where evs = "[Connect True, Message (0, 0) 1 1 (Some (Init (Some ''alice'') (Some localState0)))]"] h3
  have c3: "health_inv (run [Connect True, Message (0, 0) 1 1 (Some (Init (Some ''alice'') (Some localState0)))] init_server)"
    by blast
  from h1 h2 c1 c2 h3 c3 show ?thesis by blast
qed

section \<open>Players without a name\<close>

lemma nameless_upd_client:
  assumes "list_all (\<lambda>(i, c). i \<noteq> a \<or> \<not> truthy_name (name c)) cs"
    and "\<And>c. k = a \<Longrightarrow> \<not> truthy_name (name (f c))"
  shows "list_all (\<lambda>(i, c). i \<noteq> a \<or> \<not> truthy_name (name c)) (upd_client k f cs)"
  using assms by (induction cs) (auto simp: upd_client_def split: if_splits)

lemma nameless_upd_client_same:
  assumes "list_all (\<lambda>(i, c). i \<noteq> a \<or> \<not> truthy_name (name c)) cs"
    and "\<And>c. name (f c) = name c"
  shows "list_all (\<lambda>(i, c). i \<noteq> a \<or> \<not> truthy_name (name c)) (upd_client k f cs)"
  using assms by (induction cs) (auto simp: upd_client_def split: if_splits)

lemma nameless_shoot:
  assumes "nameless a st"
  shows "nameless a (handle_shoot rnd p origin direction st)"
proof -
  have n: "list_all (\<lambda>(i, c). i \<noteq> a \<or> \<not> truthy_name (name c)) (clients st)"
    using assms by (simp add: nameless_def)
  have 1: "list_all (\<lambda>(i, c). i \<noteq> a \<or> \<not> truthy_name (name c))
            (upd_client v (\<lambda>c. c\<lparr>deaths := deaths c + 1, state := Some vs1\<rparr>)
               (upd_client p (\<lambda>c. c\<lparr>kills := kills c + 1\<rparr>) (clients st)))" for v vs1
    by (intro nameless_upd_client_same n) simp_all
  have 2: "list_all (\<lambda>(i, c). i \<noteq> a \<or> \<not> truthy_name (name c))
            (upd_client v (\<lambda>c. c\<lparr>state := Some vs1\<rparr>) (clients st))" for v vs1
    by (intro nameless_upd_client_same n) simp_all
  show ?thesis
    using n 1 2
    by (simp add: handle_shoot_def nameless_def Let_def broadcast_def split: sum.splits option.splits)
qed

lemma nameless_step:
  assumes "nameless a st" and "\<not> renames a ev"
  shows "nameless a (step ev st)"
proof (cases ev)
  case (Connect k)
  have n: "list_all (\<lambda>(i, c). i \<noteq> a \<or> \<not> truthy_name (name c)) (clients st)"
    using assms by (simp add: nameless_def)
  have f: "\<not> truthy_name (name new_client)" by (simp add: new_client_def truthy_name_def)
  have "list_all (\<lambda>(i, c). i \<noteq> a \<or> \<not> truthy_name (name c)) (upd_client (nextId st) (\<lambda>_. new_client) (clients st))"
    by (intro nameless_upd_client n) (simp add: f)
  with n f Connect show ?thesis
    by (simp add: nameless_def upgrade_def Let_def sendWS_def map_set_def)
next
  case (Close k)
  with assms(1) show ?thesis
    by (auto simp: nameless_def removeClient_def broadcast_def list_all_iff split: option.splits)
next
  case (Message rnd p opcode m)
  have n: "list_all (\<lambda>(i, c). i \<noteq> a \<or> \<not> truthy_name (name c)) (clients st)"
    using assms by (simp add: nameless_def)
  show ?thesis
  proof (cases "opcode = 1")
    case False
    with Message assms(1) show ?thesis by (simp add: handleMessage_def)
  next
    case True
    show ?thesis
    proof (cases m)
      case None
      with Message assms(1) show ?thesis by (simp add: handleMessage_def)
    next
      case (Some d)
      show ?thesis
      proof (cases d)
        case (Init nm s)
        with assms(2) Message Some True have "p = a \<Longrightarrow> \<not> truthy_name nm"
          by (simp add: renames_def)
        then have "list_all (\<lambda>(i, c). i \<noteq> a \<or> \<not> truthy_name (name c))
                     (upd_client p (\<lambda>c. c\<lparr>name := nm, state := s\<rparr>) (clients st))"
          by (intro nameless_upd_client n) simp
        with Message Some True Init show ?thesis
          by (simp add: handleMessage_def handle_init_eq nameless_def)
      next
        case (Update s)
        have "list_all (\<lambda>(i, c). i \<noteq> a \<or> \<not> truthy_name (name c))
                     (upd_client p (\<lambda>c. c\<lparr>state := s\<rparr>) (clients st))"
          by (intro nameless_upd_client_same n) simp
        with Message Some True Update show ?thesis
          by (simp add: handleMessage_def handle_update_def broadcastExcept_def nameless_def)
      next
        case (Shoot origin direction)
        with Message Some True nameless_shoot [OF assms(1)] show ?thesis
          by (simp add: handleMessage_def)
      next
        case Other
        with Message Some assms(1) show ?thesis by (simp add: handleMessage_def)
      qed
    qed
  qed
qed

lemma nameless_run:
  assumes "nameless a st" and "list_all (\<lambda>ev. \<not> renames a ev) evs"
  shows "nameless a (run evs st)"
  using assms unfolding run_def
  by (induction evs arbitrary: st) (auto intro: nameless_step)

lemma nameless_after_init:
  assumes "\<not> truthy_name nm"
  shows "nameless a (handle_init a nm s st)"
  using assms
  by (auto simp: handle_init_eq nameless_def upd_client_def list_all_iff split: if_splits)

lemma nameless_no_catchup:
  assumes "nameless a st"
  shows "(b, PlayerJoined a n' s'' (Some kd)) \<notin> set (drop (length (sent st)) (sent (handle_init b nm s st)))"
  using assms
  by (auto simp: handle_init_eq nameless_def list_all_iff)


text \<open>
  C10: after an \<open>init\<close> of connection \<open>a\<close> with a falsy name (the empty string, or no
  name), the join is written to every registered connection, and whatever happens next,
  as long as \<open>a\<close> sends no \<open>init\<close> with a non-empty name, the catch-up of any joining
  connection \<open>b\<close> holds no message for \<open>a\<close>.
\<close>

theorem falsy_name_omitted_from_catchup:
  assumes "\<not> truthy_name nm0" and "list_all (\<lambda>ev. \<not> renames a ev) evs"
  shows "let st1 = handleMessage rnd0 a 1 (Some (Init nm0 s0)) st;
             st2 = run evs st1;
             st3 = handleMessage rnd b 1 (Some (Init nm s)) st2
         in take (length (clients st)) (drop (length (sent st)) (sent st1))
              = map (\<lambda>(i, c). (i, PlayerJoined a nm0 s0 None)) (clients st) \<and>
            (b, PlayerJoined a n' s' (Some kd)) \<notin> set (drop (length (sent st2)) (sent st3))"
proof -
  define st1 where "st1 = handleMessage rnd0 a 1 (Some (Init nm0 s0)) st"
  define st2 where "st2 = run evs st1"
  define st3 where "st3 = handleMessage rnd b 1 (Some (Init nm s)) st2"
  have i1: "st1 = handle_init a nm0 s0 st" by (simp add: st1_def handleMessage_def)
  have i3: "st3 = handle_init b nm s st2" by (simp add: st3_def handleMessage_def)
  have "nameless a st1" unfolding i1 by (rule nameless_after_init [OF assms(1)])
  then have "nameless a st2" unfolding st2_def by (rule nameless_run [OF _ assms(2)])
  then have "(b, PlayerJoined a n' s' (Some kd)) \<notin> set (drop (length (sent st2)) (sent st3))"
    unfolding i3 by (rule nameless_no_catchup)
  moreover have "take (length (clients st)) (drop (length (sent st)) (sent st1))
              = map (\<lambda>(i, c). (i, PlayerJoined a nm0 s0 None)) (clients st)"
    by (simp add: i1 handle_init_eq)
  ultimately show ?thesis by (simp add: Let_def st1_def st2_def st3_def)
qed

theorem falsy_name_omitted_from_catchup_witness:
  "\<not> truthy_name (Some []) \<and>
   list_all (\<lambda>ev. \<not> renames 1 ev) [Message (0, 0) 2 1 (Some (Init (Some ''bob'') (Some localState0)))] \<and>
   (let st1 = handleMessage (0, 0) 1 1 (Some (Init (Some []) (Some localState0))) three_connected;
        st2 = run [Message (0, 0) 2 1 (Some (Init (Some ''bob'') (Some localState0)))] st1;
        st3 = handleMessage (0, 0) 3 1 (Some (Init (Some ''carol'') (Some localState0))) st2
    in take (length (clients three_connected)) (drop (length (sent three_connected)) (sent st1))
         = map (\<lambda>(i, c). (i, PlayerJoined 1 (Some []) (Some localState0) None)) (clients three_connected) \<and>
       (3, PlayerJoined 1 (Some []) (Some localState0) (Some (0, 0))) \<notin> set (drop (length (sent st2)) (sent st3)))"
proof -
  have h1: "\<not> truthy_name (Some [])" by (simp add: truthy_name_def)
  have h2: "list_all (\<lambda>ev. \<not> renames 1 ev) [Message (0, 0) 2 1 (Some (Init (Some ''bob'') (Some localState0)))]"
    by (simp add: renames_def)
  from falsy_name_omitted_from_catchup [OF h1 h2] h1 h2 show ?thesis by blast
qed

section \<open>Properties of the frame codec\<close>


lemma bit128: "bit (128 :: 8 word) n \<longleftrightarrow> n = 7"
proof -
  have e: "(128 :: 8 word) = 2 ^ 7" by simp
  show ?thesis unfolding e bit_exp_iff by auto
qed

lemma bit128_nat: "bit (128 :: nat) n \<longleftrightarrow> n = 7"
proof -
  have e: "(128 :: nat) = 2 ^ 7" by simp
  show ?thesis unfolding e bit_exp_iff by auto
qed

lemma bit128_int: "bit (128 :: int) n \<longleftrightarrow> n = 7"
proof -
  have e: "(128 :: int) = 2 ^ 7" by simp
  show ?thesis unfolding e bit_exp_iff by auto
qed

lemma c7f: "(0x7f :: 8 word) = mask 7" by (simp add: mask_eq_exp_minus_1)

lemma masked_flag: "((x :: 8 word) OR 0x80) AND 0x80 \<noteq> 0"
proof -
  have "bit (((x :: 8 word) OR 0x80) AND 0x80) 7"
    by (simp add: bit_and_iff bit_or_iff bit128)
  then show ?thesis by auto
qed

lemma masked_len: "((x :: 8 word) OR 0x80) AND 0x7f = x AND 0x7f"
  unfolding c7f by (rule bit_word_eqI) (auto simp: bit_and_iff bit_or_iff bit_mask_iff dest!: bit128 [THEN iffD1] bit128_nat [THEN iffD1] bit128_int [THEN iffD1])

lemma unmasked_small:
  assumes "n < 128" shows "(of_nat n :: 8 word) AND 0x80 = 0"
proof -
  have "(of_nat n :: 8 word) = take_bit 7 (of_nat n)"
    using assms by (simp add: take_bit_nat_eq_self flip: of_nat_take_bit)
  then have "(of_nat n :: 8 word) AND 0x80 = take_bit 7 (of_nat n :: 8 word) AND 0x80"
    by simp
  also have "\<dots> = 0" by (rule bit_word_eqI) (auto simp: bit_and_iff bit_take_bit_iff dest!: bit128 [THEN iffD1] bit128_nat [THEN iffD1] bit128_int [THEN iffD1])
  finally show ?thesis .
qed

lemma unmasked_126: "(126 :: 8 word) AND 0x80 = 0" "(127 :: 8 word) AND 0x80 = 0"
  "unat ((126 :: 8 word) AND 0x7f) = 126" "unat ((127 :: 8 word) AND 0x7f) = 127"
  "unat ((0x81 :: 8 word) AND 0x0f) = 1"
  by simp_all


lemma split_mod: "(m :: nat) mod (b * 256) = (m div b) mod 256 * b + m mod b"
  using mod_mult2_eq [of m b 256] by simp

lemma low16: "((m :: nat) div 256) mod 256 * 256 + m mod 256 = m mod 65536"
  using split_mod [of m 256] by simp

lemma low32:
  "((m :: nat) div 16777216) mod 256 * 16777216 + (m div 65536) mod 256 * 65536
     + (m div 256) mod 256 * 256 + m mod 256 = m mod 4294967296"
  using split_mod [of m 16777216] split_mod [of m 65536] split_mod [of m 256] by simp

lemma high32:
  "((n :: nat) div 72057594037927936) mod 256 * 16777216 + (n div 281474976710656) mod 256 * 65536
     + (n div 1099511627776) mod 256 * 256 + (n div 4294967296) mod 256 = (n div 4294967296) mod 4294967296"
  using low32 [of "n div 4294967296"] by (simp add: div_mult2_eq [symmetric])

lemma be64:
  assumes "(n :: nat) < 18446744073709551616"
  shows "(n div 4294967296) mod 4294967296 * 4294967296 + n mod 4294967296 = n"
proof -
  have "n div 4294967296 < 4294967296" using assms by (simp add: less_mult_imp_div_less)
  then show ?thesis by simp
qed


lemma len7_take: "(x :: 8 word) AND 0x7f = take_bit 7 x"
  by (simp add: c7f take_bit_eq_mask)

lemma len7_small: "n < 128 \<Longrightarrow> unat ((of_nat n :: 8 word) AND 0x7f) = n"
  by (simp add: len7_take unsigned_take_bit_eq unat_of_nat take_bit_nat_eq_self)


lemma xor_cancel: "((a :: 8 word) XOR b) XOR b = a"
  by (simp add: xor.assoc)

lemma length_mask_bytes: "length (mask_bytes k i p) = length p"
  by (induction p arbitrary: i) simp_all

lemma nth_mask_bytes:
  "j < length p \<Longrightarrow> mask_bytes k i p ! j = p ! j XOR k ! ((i + j) mod 4)"
proof (induction p arbitrary: i j)
  case Nil
  then show ?case by simp
next
  case (Cons b bs)
  show ?case
  proof (cases j)
    case 0
    then show ?thesis by simp
  next
    case (Suc j')
    with Cons.prems have "j' < length bs" by simp
    from Cons.IH [OF this, of "Suc i"] Suc show ?thesis by simp
  qed
qed

lemma unmask_mask_bytes: "unmask k (mask_bytes k 0 p) = p"
  by (rule nth_equalityI) (simp_all add: unmask_def length_mask_bytes nth_mask_bytes xor_cancel)

lemma next_frame_unmasked:
  assumes "frame_length (hdr @ p @ rest) = Some (length p, length hdr)"
    and "2 \<le> length hdr" and "hdr ! 1 AND 0x80 = 0"
  shows "next_frame (hdr @ p @ rest) = Some (unat (hdr ! 0 AND 0x0f), p, length hdr + length p)"
  using assms by (auto simp: next_frame_def nth_append)

lemma next_frame_masked:
  assumes "frame_length (hdr @ k @ q @ rest) = Some (length q, length hdr)"
    and "2 \<le> length hdr" and "hdr ! 1 AND 0x80 \<noteq> 0" and "length k = 4"
  shows "next_frame (hdr @ k @ q @ rest) = Some (unat (hdr ! 0 AND 0x0f), unmask k q, length hdr + 4 + length q)"
  using assms by (auto simp: next_frame_def nth_append)

lemma frame_length_7:
  assumes "unat (b1 AND 0x7f) = n" and "n < 126"
  shows "frame_length (b0 # b1 # xs) = Some (n, 2)"
  using assms by (simp add: frame_length_def)

lemma frame_length_16:
  assumes "unat (b1 AND 0x7f) = 126" and "n < 65536"
  shows "frame_length (b0 # b1 # writeUInt16BE n @ xs) = Some (n, 4)"
  using assms low16 [of n]
  by (simp add: frame_length_def readUInt16BE_def writeUInt16BE_def unat_of_nat)

lemma read64:
  assumes "n < 18446744073709551616"
  shows "readUInt32BE (b0 # b1 # writeBigUInt64BE n @ xs) 2 * 2 ^ 32
           + readUInt32BE (b0 # b1 # writeBigUInt64BE n @ xs) 6 = n"
proof -
  have hi: "readUInt32BE (b0 # b1 # writeBigUInt64BE n @ xs) 2 = (n div 4294967296) mod 4294967296"
    using high32 [of n] by (simp add: readUInt32BE_def writeBigUInt64BE_def unat_of_nat)
  have lo: "readUInt32BE (b0 # b1 # writeBigUInt64BE n @ xs) 6 = n mod 4294967296"
    using low32 [of n] by (simp add: readUInt32BE_def writeBigUInt64BE_def unat_of_nat)
  show ?thesis unfolding hi lo using be64 [OF assms] by simp
qed

lemma frame_length_64:
  assumes "unat (b1 AND 0x7f) = 127" and "n < 18446744073709551616"
  shows "frame_length (b0 # b1 # writeBigUInt64BE n @ xs) = Some (n, 10)"
  using assms(1) read64 [OF assms(2), of b0 b1 xs]
  by (simp add: frame_length_def writeBigUInt64BE_def)


lemma next_frame_Nil: "next_frame [] = None"
  by (simp add: next_frame_def)

lemma parseBuffer_loop_None:
  "next_frame buf = None \<Longrightarrow> parseBuffer_loop h s buf = (s, buf)"
  by (subst parseBuffer_loop.simps) simp

lemma parseBuffer_loop_Some:
  "next_frame buf = Some (opcode, payload, n) \<Longrightarrow>
     parseBuffer_loop h s buf = parseBuffer_loop h (h s opcode payload) (drop n buf)"
  by (subst parseBuffer_loop.simps) simp

lemma parse_single:
  assumes "next_frame buf = Some (opcode, payload, length buf)"
  shows "parseBuffer_loop h s buf = (h s opcode payload, [])"
  by (simp add: parseBuffer_loop_Some [OF assms] parseBuffer_loop_None [OF next_frame_Nil])

lemma sendWS_frame_decodes:
  assumes "length p < 18446744073709551616"
  shows "next_frame (sendWS_frame p) = Some (1, p, length (sendWS_frame p))"
proof -
  consider "length p < 126" | "126 \<le> length p" "length p < 65536" | "65536 \<le> length p"
    by linarith
  then show ?thesis
  proof cases
    case 1
    then have fl: "frame_length ([0x81, of_nat (length p)] @ p @ []) = Some (length p, length [0x81 :: 8 word, of_nat (length p)])"
      using frame_length_7 [of "of_nat (length p)" "length p" "0x81" "p"]
      by (simp add: len7_small)
    from 1 have "[0x81 :: 8 word, of_nat (length p)] ! 1 AND 0x80 = 0" by (simp add: unmasked_small)
    from next_frame_unmasked [OF fl _ this] 1 show ?thesis
      by (simp add: sendWS_frame_def frame_header_def)
  next
    case 2
    then have fl: "frame_length (([0x81, 126] @ writeUInt16BE (length p)) @ p @ []) = Some (length p, length ([0x81 :: 8 word, 126] @ writeUInt16BE (length p)))"
      using frame_length_16 [of 126 "length p" "0x81" "p"]
      by (simp add: writeUInt16BE_def)
    have "([0x81 :: 8 word, 126] @ writeUInt16BE (length p)) ! 1 AND 0x80 = 0" by simp
    from next_frame_unmasked [OF fl _ this] 2 show ?thesis
      by (simp add: sendWS_frame_def frame_header_def writeUInt16BE_def)
  next
    case 3
    with assms have fl: "frame_length (([0x81, 127] @ writeBigUInt64BE (length p)) @ p @ []) = Some (length p, length ([0x81 :: 8 word, 127] @ writeBigUInt64BE (length p)))"
      using frame_length_64 [of 127 "length p" "0x81" "p"]
      by (simp add: writeBigUInt64BE_def)
    have "([0x81 :: 8 word, 127] @ writeBigUInt64BE (length p)) ! 1 AND 0x80 = 0" by simp
    from next_frame_unmasked [OF fl _ this] 3 show ?thesis
      by (simp add: sendWS_frame_def frame_header_def writeBigUInt64BE_def)
  qed
qed


lemma mask_frame_decodes:
  assumes "length p < 18446744073709551616" and "length k = 4"
  shows "next_frame (mask_frame k p) = Some (1, p, length (mask_frame k p))"
proof -
  note lu = length_mask_bytes [of k 0 p]
  consider "length p < 126" | "126 \<le> length p" "length p < 65536" | "65536 \<le> length p"
    by linarith
  then show ?thesis
  proof cases
    case 1
    then have "unat (((of_nat (length p) :: 8 word) OR 0x80) AND 0x7f) = length p"
      by (simp add: masked_len len7_small)
    from frame_length_7 [OF this 1, of "0x81" "k @ mask_bytes k 0 p"]
    have fl: "frame_length ([0x81, of_nat (length p) OR 0x80] @ k @ mask_bytes k 0 p @ [])
                = Some (length (mask_bytes k 0 p), length [0x81 :: 8 word, of_nat (length p) OR 0x80])"
      by (simp add: lu)
    have "[0x81 :: 8 word, of_nat (length p) OR 0x80] ! 1 AND 0x80 \<noteq> 0" by (simp add: masked_flag)
    from next_frame_masked [OF fl _ this assms(2)] 1 assms(2) show ?thesis
      by (simp add: mask_frame_def frame_header_def lu unmask_mask_bytes)
  next
    case 2
    have "unat ((254 :: 8 word) AND 0x7f) = 126" by simp
    from frame_length_16 [OF this 2(2), of "0x81" "k @ mask_bytes k 0 p"]
    have fl: "frame_length (([0x81, 254] @ writeUInt16BE (length p)) @ k @ mask_bytes k 0 p @ [])
                = Some (length (mask_bytes k 0 p), length ([0x81 :: 8 word, 254] @ writeUInt16BE (length p)))"
      by (simp add: lu writeUInt16BE_def)
    have "([0x81 :: 8 word, 254] @ writeUInt16BE (length p)) ! 1 AND 0x80 \<noteq> 0" by simp
    from next_frame_masked [OF fl _ this assms(2)] 2 assms(2) show ?thesis
      by (simp add: mask_frame_def frame_header_def lu unmask_mask_bytes writeUInt16BE_def)
  next
    case 3
    have "unat ((255 :: 8 word) AND 0x7f) = 127" by simp
    from frame_length_64 [OF this assms(1), of "0x81" "k @ mask_bytes k 0 p"]
    have fl: "frame_length (([0x81, 255] @ writeBigUInt64BE (length p)) @ k @ mask_bytes k 0 p @ [])
                = Some (length (mask_bytes k 0 p), length ([0x81 :: 8 word, 255] @ writeBigUInt64BE (length p)))"
      by (simp add: lu writeBigUInt64BE_def)
    have "([0x81 :: 8 word, 255] @ writeBigUInt64BE (length p)) ! 1 AND 0x80 \<noteq> 0" by simp
    from next_frame_masked [OF fl _ this assms(2)] 3 assms(2) show ?thesis
      by (simp add: mask_frame_def frame_header_def lu unmask_mask_bytes writeBigUInt64BE_def)
  qed
qed

lemma hello_frame:
  "next_frame [0x81, 0x85, 0x37, 0xfa, 0x21, 0x3d, 0x7f, 0x9f, 0x4d, 0x51, 0x58]
     = Some (1, [0x48, 0x65, 0x6c, 0x6c, 0x6f], 11)"
  by (simp add: next_frame_def frame_length_def unmask_def upt_rec)

text \<open>
  C8: for a payload of 0, 1, 125, 126, 65535 or 65536 bytes, the decoder run on the frame
  \<open>sendWS\<close> writes for it hands the handler one text frame with exactly the payload
  and leaves an empty buffer; the same holds for the frame of a client that masked the
  payload under any four-byte key, where byte \<open>i\<close> on the wire is byte \<open>i\<close> of the
  payload XOR-ed with byte \<open>i mod 4\<close> of the key. The masked frame of the text Hello
  under the key 37 fa 21 3d, as the protocol's own document gives it, decodes to Hello.
\<close>

theorem frame_round_trip:
  assumes "length p \<in> {0, 1, 125, 126, 65535, 65536}" and "length k = 4"
  shows "parseBuffer_loop h s (sendWS_frame p) = (h s 1 p, []) \<and>
         parseBuffer_loop h s (mask_frame k p) = (h s 1 p, []) \<and>
         length (mask_bytes k 0 p) = length p \<and>
         (\<forall>i<length p. mask_bytes k 0 p ! i = p ! i XOR k ! (i mod 4)) \<and>
         parseBuffer_loop h s [0x81, 0x85, 0x37, 0xfa, 0x21, 0x3d, 0x7f, 0x9f, 0x4d, 0x51, 0x58]
           = (h s 1 [0x48, 0x65, 0x6c, 0x6c, 0x6f], [])"
proof -
  from assms(1) have "length p < 18446744073709551616" by auto
  from sendWS_frame_decodes [OF this] mask_frame_decodes [OF this assms(2)]
  have "parseBuffer_loop h s (sendWS_frame p) = (h s 1 p, [])"
    and "parseBuffer_loop h s (mask_frame k p) = (h s 1 p, [])"
    by (simp_all add: parse_single)
  moreover have "parseBuffer_loop h s [0x81, 0x85, 0x37, 0xfa, 0x21, 0x3d, 0x7f, 0x9f, 0x4d, 0x51, 0x58]
           = (h s 1 [0x48, 0x65, 0x6c, 0x6c, 0x6f], [])"
    using parse_single [of "[0x81, 0x85, 0x37, 0xfa, 0x21, 0x3d, 0x7f, 0x9f, 0x4d, 0x51, 0x58]" 1
        "[0x48, 0x65, 0x6c, 0x6c, 0x6f]" h s] hello_frame
    by simp
  moreover have "\<forall>i<length p. mask_bytes k 0 p ! i = p ! i XOR k ! (i mod 4)"
    by (simp add: nth_mask_bytes)
  ultimately show ?thesis by (simp add: length_mask_bytes)
qed

theorem frame_round_trip_witness:
  "length (replicate 126 (0x41 :: 8 word)) \<in> {0, 1, 125, 126, 65535, 65536} \<and>
   length [0x37, 0xfa, 0x21, 0x3d :: 8 word] = 4 \<and>
   parseBuffer_loop (\<lambda>acc opcode payload. acc @ [(opcode, payload)]) [] (sendWS_frame (replicate 126 0x41))
     = ([(1, replicate 126 0x41)], []) \<and>
   parseBuffer_loop (\<lambda>acc opcode payload. acc @ [(opcode, payload)]) []
       (mask_frame [0x37, 0xfa, 0x21, 0x3d] (replicate 126 0x41))
     = ([(1, replicate 126 0x41)], []) \<and>
   length [0x48 :: 8 word] \<in> {0, 1, 125, 126, 65535, 65536} \<and>
   mask_frame [0x37, 0xfa, 0x21, 0x3d] [0x48] = [0x81, 0x81, 0x37, 0xfa, 0x21, 0x3d, 0x7f] \<and>
   parseBuffer_loop (\<lambda>acc opcode payload. acc @ [(opcode, payload)]) [] [0x81, 0x81, 0x37, 0xfa, 0x21, 0x3d, 0x7f]
     = ([(1, [0x48])], [])"
proof -
  have h1: "length (replicate 126 (0x41 :: 8 word)) \<in> {0, 1, 125, 126, 65535, 65536}" by simp
  have h2: "length [0x37, 0xfa, 0x21, 0x3d :: 8 word] = 4" by simp
  have h3: "length [0x48 :: 8 word] \<in> {0, 1, 125, 126, 65535, 65536}" by simp
  have m: "mask_frame [0x37, 0xfa, 0x21, 0x3d] [0x48] = [0x81, 0x81, 0x37, 0xfa, 0x21, 0x3d, 0x7f]"
    by (simp add: mask_frame_def frame_header_def)
  from frame_round_trip [OF h1 h2, of "\<lambda>acc opcode payload. acc @ [(opcode, payload)]" "[]"]
  have c1: "parseBuffer_loop (\<lambda>acc opcode payload. acc @ [(opcode, payload)]) [] (sendWS_frame (replicate 126 0x41))
     = ([(1, replicate 126 0x41)], []) \<and>
   parseBuffer_loop (\<lambda>acc opcode payload. acc @ [(opcode, payload)]) []
       (mask_frame [0x37, 0xfa, 0x21, 0x3d] (replicate 126 0x41))
     = ([(1, replicate 126 0x41)], [])"
    by simp
  from frame_round_trip [OF h3 h2, of "\<lambda>acc opcode payload. acc @ [(opcode, payload)]" "[]"]
  have c2: "parseBuffer_loop (\<lambda>acc opcode payload. acc @ [(opcode, payload)]) [] [0x81, 0x81, 0x37, 0xfa, 0x21, 0x3d, 0x7f]
     = ([(1, [0x48])], [])"
    unfolding m by simp
  from h1 h2 c1 h3 m c2 show ?thesis by blast
qed














section \<open>Registries of reachable states\<close>

text \<open>
  Every state reached from the initial one has distinct ids, none of them 0, so the
  conditions on the victim's id and on the registry in the theorems on \<open>shoot\<close> hold
  in every run.
\<close>

lemma handle_shoot_ids:
  "map fst (clients (handle_shoot rnd p origin direction st)) = map fst (clients st) \<and>
   nextId (handle_shoot rnd p origin direction st) = nextId st"
  by (simp add: handle_shoot_def Let_def broadcast_def map_fst_upd_client split: sum.splits option.splits)

lemma handleMessage_ids:
  "map fst (clients (handleMessage rnd p opcode m st)) = map fst (clients st) \<and>
   nextId (handleMessage rnd p opcode m st) = nextId st"
proof (cases m)
  case None
  then show ?thesis by (simp add: handleMessage_def)
next
  case (Some d)
  then show ?thesis
    by (cases d)
       (simp_all add: handleMessage_def handle_init_eq handle_update_def handle_shoot_ids
          broadcastExcept_def map_fst_upd_client)
qed

lemma registry_ok_step:
  assumes "registry_ok st"
  shows "registry_ok (step ev st)"
proof (cases ev)
  case (Connect k)
  from assms have "nextId st \<notin> fst ` set (clients st)"
    by (auto simp: registry_ok_def list_all_iff)
  with assms Connect show ?thesis
    by (auto simp: registry_ok_def upgrade_def Let_def sendWS_def map_set_def list_all_iff)
next
  case (Message rnd p opcode m)
  with assms handleMessage_ids [of rnd p opcode m st] show ?thesis
    by (simp add: registry_ok_def)
next
  case (Close k)
  have "map fst (filter (\<lambda>(i, c). i \<noteq> k) cs) = filter (\<lambda>i. i \<noteq> k) (map fst cs)" for cs :: "(nat \<times> client) list"
    by (induction cs) auto
  with assms Close show ?thesis
    by (auto simp: registry_ok_def removeClient_def broadcast_def list_all_iff split: option.splits)
qed

lemma registry_ok_run: "registry_ok st \<Longrightarrow> registry_ok (run evs st)"
  unfolding run_def by (induction evs arbitrary: st) (auto intro: registry_ok_step)

lemma registry_ok_reachable: "registry_ok (run evs init_server)"
  by (rule registry_ok_run) (simp add: registry_ok_def init_server_def)

lemma reachable_hit:
  assumes "find_hit p origin direction (clients (run evs init_server)) = Inr (Some v)"
  shows "v \<noteq> 0 \<and> v \<noteq> p \<and> distinct (map fst (clients (run evs init_server)))"
proof -
  from find_hit_member [OF assms] have "v \<noteq> p" "v \<in> set (map fst (clients (run evs init_server)))"
    by auto
  with registry_ok_reachable [of evs] show ?thesis
    by (auto simp: registry_ok_def list_all_iff)
qed

end
